theory Spec2Isabelle
  imports Complex_Main
begin

section \<open>Exceptions of the source\<close>

text \<open>
  The exceptions that the modelled methods of \<open>projective_ds.py\<close> raise themselves or
  let through from the evaluation of the map. A method that can raise returns
  \<open>error + 'a\<close>, with \<open>Inl\<close> for the exception.
\<close>

datatype error = TypeError | ValueError | NotImplementedError | ZeroDivisionError | IndexError

section \<open>orbit\<close>

text \<open>
  \<open>orbit(self, P, N, **kwds)\<close>. The argument \<open>N\<close> is either one integer or a pair of
  integers, given as a list (\<open>Bounds\<close>) or as a tuple (\<open>Tuple\<close>); a single integer
  \<open>N\<close> is turned into \<open>[0, N]\<close>. With a tuple the assignment \<open>N[0] = ZZ(N[0])\<close>
  raises \<open>TypeError\<close>, a tuple having no item assignment.
  The evaluation \<open>self(Q, check)\<close> of the map lives in the scheme-morphism classes of
  the library, so it is a parameter \<open>call\<close>: it takes the flag \<open>check\<close> and the
  point, and gives the image or the exception it raised. The same holds for
  \<open>normalize_coordinates\<close>, the parameter \<open>nrm\<close>.
\<close>

datatype orbit_bound = Single int | Bounds int int | Tuple int int

text \<open>The first loop, \<open>for i in range(1, N[0]+1)\<close>: it only moves the point forward.\<close>

fun orbit_skip :: "(bool \<Rightarrow> 'p \<Rightarrow> error + 'p) \<Rightarrow> ('p \<Rightarrow> 'p) \<Rightarrow> bool \<Rightarrow> bool
    \<Rightarrow> nat \<Rightarrow> 'p \<Rightarrow> error + 'p" where
  "orbit_skip call nrm check do_normalize 0 Q = Inr Q"
| "orbit_skip call nrm check do_normalize (Suc i) Q =
     (case call check Q of
        Inl e \<Rightarrow> Inl e
      | Inr Q' \<Rightarrow> orbit_skip call nrm check do_normalize i (if do_normalize then nrm Q' else Q'))"

text \<open>The second loop, \<open>for i in range(N[0]+1, N[1]+1)\<close>: the points it appends.\<close>

fun orbit_collect :: "(bool \<Rightarrow> 'p \<Rightarrow> error + 'p) \<Rightarrow> ('p \<Rightarrow> 'p) \<Rightarrow> bool \<Rightarrow> bool
    \<Rightarrow> nat \<Rightarrow> 'p \<Rightarrow> error + 'p list" where
  "orbit_collect call nrm check do_normalize 0 Q = Inr []"
| "orbit_collect call nrm check do_normalize (Suc i) Q =
     (case call check Q of
        Inl e \<Rightarrow> Inl e
      | Inr Q' \<Rightarrow>
          (let Q'' = (if do_normalize then nrm Q' else Q') in
           case orbit_collect call nrm check do_normalize i Q'' of
             Inl e \<Rightarrow> Inl e
           | Inr qs \<Rightarrow> Inr (Q'' # qs)))"

definition orbit :: "(bool \<Rightarrow> 'p \<Rightarrow> error + 'p) \<Rightarrow> ('p \<Rightarrow> 'p) \<Rightarrow> 'p \<Rightarrow> orbit_bound
    \<Rightarrow> bool \<Rightarrow> bool \<Rightarrow> error + 'p list" where
  "orbit call nrm P N check do_normalize =
     (case N of
        Tuple a b \<Rightarrow> Inl TypeError
      | _ \<Rightarrow>
        (let N0 = (case N of Single n \<Rightarrow> 0 | Bounds a b \<Rightarrow> a | Tuple a b \<Rightarrow> a);
             N1 = (case N of Single n \<Rightarrow> n | Bounds a b \<Rightarrow> b | Tuple a b \<Rightarrow> b)
         in if N0 < 0 \<or> N1 < 0 then Inl TypeError
            else if N0 > N1 then Inr []
            else
              (case orbit_skip call nrm check do_normalize (nat N0)
                      (if do_normalize then nrm P else P) of
                 Inl e \<Rightarrow> Inl e
               | Inr Q \<Rightarrow>
                   (case orbit_collect call nrm check do_normalize (nat N1 - nat N0) Q of
                      Inl e \<Rightarrow> Inl e
                    | Inr qs \<Rightarrow> Inr (Q # qs)))))"

text \<open>
  The map \<open>[x^3, x*y^2]\<close> on the projective line over the integers, from the docstring
  of \<open>orbit\<close>: with \<open>check\<close> the image \<open>(0, 0)\<close> of \<open>(0 : 1)\<close> is refused with a
  \<open>ValueError\<close>.
\<close>

definition cube_map :: "bool \<Rightarrow> int \<times> int \<Rightarrow> error + int \<times> int" where
  "cube_map check Q =
     (let R = (fst Q ^ 3, fst Q * snd Q ^ 2)
      in if check \<and> R = (0, 0) then Inl ValueError else Inr R)"

text \<open>
  The normalization of a point of the projective line over the integers, for the last
  example of the docstring of \<open>orbit\<close>: the coordinates are divided by their gcd.
\<close>

definition normalize_gcd :: "int \<times> int \<Rightarrow> int \<times> int" where
  "normalize_gcd Q = (fst Q div gcd (fst Q) (snd Q), snd Q div gcd (fst Q) (snd Q))"

section \<open>possible_periods over the rationals\<close>

text \<open>
  The library function \<open>primes(start, stop)\<close> iterates, in increasing order, over the
  primes \<open>q\<close> with \<open>start \<le> q < stop\<close>.
\<close>

definition is_prime :: "nat \<Rightarrow> bool" where
  "is_prime n = (2 \<le> n \<and> list_all (\<lambda>d. \<not> d dvd n) [2..<n])"

definition primes :: "int \<Rightarrow> int \<Rightarrow> int list" where
  "primes start stop = filter (\<lambda>q. is_prime (nat q)) [start..stop - 1]"

text \<open>
  \<open>possible_periods(self, **kwds)\<close> of \<open>DynamicalSystem_projective\<close>. What it calls
  outside of its own body is a field of \<open>sieve_ops\<close>, each with the exception it may raise:
  \<^item> \<open>primes_of_bad_reduction\<close>: the result of \<open>self.primes_of_bad_reduction()\<close>, called
    when the keyword \<open>bad_primes\<close> is absent;
  \<^item> \<open>change_ring_GF q\<close>: the reduction \<open>self.change_ring(GF(q))\<close>, of type \<open>'m\<close>;
  \<^item> \<open>fast_possible_periods F\<close>: the worker \<open>parallel_function\<close>, that is
    \<open>F.possible_periods()\<close> of the reduced map, which returns
    \<open>_fast_possible_periods(F, False)\<close> of a compiled helper that is not among the sources;
  \<^item> \<open>p_iter_fork\<close>: \<open>list(parallel_iter(parallel_function, parallel_data))\<close> of the
    library's process pool, as the list of the values \<open>result[1]\<close>.
  The argument \<open>base_ok\<close> tells that the base ring is \<open>ZZ\<close> or \<open>QQ\<close>. The keyword
  \<open>prime_bound\<close> is one integer (the upper bound, the lower one being 1), a list of two
  integers or a tuple of two integers; with a tuple the assignment
  \<open>primebound[0] = ZZ(primebound[0])\<close> raises \<open>TypeError\<close>, which the \<open>except\<close> clause
  raises again as a \<open>TypeError\<close>. The typed model leaves out a bound that is no integer.
\<close>

record 'm sieve_ops =
  primes_of_bad_reduction :: "error + int list"
  change_ring_GF :: "int \<Rightarrow> error + 'm"
  fast_possible_periods :: "'m \<Rightarrow> error + nat list"
  p_iter_fork :: "('m \<Rightarrow> error + nat list) \<Rightarrow> 'm list \<Rightarrow> error + nat list list"

text \<open>
  The loop \<open>for q in primes(primebound[0], primebound[1] + 1)\<close>, which appends the
  reduction at every prime that is not in \<open>badprimes\<close>; an exception of
  \<open>change_ring\<close> leaves the loop.
\<close>

fun parallel_data_loop :: "(int \<Rightarrow> error + 'm) \<Rightarrow> int list \<Rightarrow> int list \<Rightarrow> error + 'm list" where
  "parallel_data_loop cr badprimes [] = Inr []"
| "parallel_data_loop cr badprimes (q # qs) =
     (if \<not> (q \<in> set badprimes) then
        (case cr q of
           Inl e \<Rightarrow> Inl e
         | Inr F \<Rightarrow>
             (case parallel_data_loop cr badprimes qs of
                Inl e \<Rightarrow> Inl e
              | Inr parallel_data \<Rightarrow> Inr (F # parallel_data)))
      else parallel_data_loop cr badprimes qs)"

text \<open>
  The loop over the results. A Python set is a list without repetition: \<open>set(xs)\<close> is
  \<open>remdups xs\<close>, the intersection keeps the members of the left set that are in the
  right one, \<open>sorted\<close> is \<open>sort\<close>.
\<close>

definition intersect_results :: "nat list list \<Rightarrow> nat \<times> nat list" where
  "intersect_results parallel_results =
     fold (\<lambda>possible_periods (firstgood, periods).
             if firstgood = 0 then (1, remdups possible_periods)
             else (firstgood, filter (\<lambda>x. x \<in> set (remdups possible_periods)) periods))
          parallel_results (0, [])"

definition bad_primes_of :: "'m sieve_ops \<Rightarrow> int list option \<Rightarrow> error + int list" where
  "bad_primes_of ops bad_primes =
     (case bad_primes of None \<Rightarrow> primes_of_bad_reduction ops | Some bs \<Rightarrow> Inr bs)"

definition possible_periods :: "bool \<Rightarrow> 'm sieve_ops \<Rightarrow> orbit_bound \<Rightarrow> int list option
    \<Rightarrow> error + nat list" where
  "possible_periods base_ok ops primebound bad_primes =
     (if \<not> base_ok then Inl NotImplementedError
      else
        (case primebound of
           Tuple a b \<Rightarrow> Inl TypeError
         | _ \<Rightarrow>
           (let lo = (case primebound of Single n \<Rightarrow> 1 | Bounds a b \<Rightarrow> a | Tuple a b \<Rightarrow> a);
                hi = (case primebound of Single n \<Rightarrow> n | Bounds a b \<Rightarrow> b | Tuple a b \<Rightarrow> b)
            in case bad_primes_of ops bad_primes of
                 Inl e \<Rightarrow> Inl e
               | Inr badprimes \<Rightarrow>
                   (case parallel_data_loop (change_ring_GF ops) badprimes (primes lo (hi + 1)) of
                      Inl e \<Rightarrow> Inl e
                    | Inr parallel_data \<Rightarrow>
                        (case p_iter_fork ops (fast_possible_periods ops) parallel_data of
                           Inl e \<Rightarrow> Inl e
                         | Inr parallel_results \<Rightarrow>
                             (let res = intersect_results parallel_results
                              in if fst res = 0 then Inl ValueError
                                 else Inr (sort (snd res))))))))"










section \<open>Digraphs from a dictionary of out-neighbours\<close>

text \<open>
  Both graph builders end with \<open>DiGraph(dict(zip(V, E)), loops=True)\<close>. Points are
  compared by \<open>==\<close>, the parameter \<open>eq\<close>. \<open>dict(zip(V, E))\<close> keeps the first key of
  every class of equal keys, at its place, with the value given last.
\<close>

fun dict_update :: "('p \<Rightarrow> 'p \<Rightarrow> bool) \<Rightarrow> 'p \<Rightarrow> 'v \<Rightarrow> ('p \<times> 'v) list \<Rightarrow> ('p \<times> 'v) list" where
  "dict_update eq k v [] = [(k, v)]"
| "dict_update eq k v ((k', v') # d) =
     (if eq k' k then (k', v) # d else (k', v') # dict_update eq k v d)"

definition dict_zip :: "('p \<Rightarrow> 'p \<Rightarrow> bool) \<Rightarrow> 'p list \<Rightarrow> 'v list \<Rightarrow> ('p \<times> 'v) list" where
  "dict_zip eq V E = fold (\<lambda>(k, v) d. dict_update eq k v d) (zip V E) []"

record 'p digraph =
  vertices :: "'p list"
  arcs :: "('p \<times> 'p) list"

fun add_vertex :: "('p \<Rightarrow> 'p \<Rightarrow> bool) \<Rightarrow> 'p \<Rightarrow> 'p list \<Rightarrow> 'p list" where
  "add_vertex eq v [] = [v]"
| "add_vertex eq v (u # us) = (if eq u v then u # us else u # add_vertex eq v us)"

text \<open>
  Modelled from the spec: the constructor \<open>DiGraph\<close> of the graph library, which is not
  among the sources. The spec's orbit graph has the distinct points as vertices and the
  pairs (point, image) as edges, loops allowed: every key of the dictionary and every
  listed out-neighbour is a vertex, once for each class of equal points, and every pair
  (key, listed out-neighbour) is an arc.
\<close>

definition DiGraph :: "('p \<Rightarrow> 'p \<Rightarrow> bool) \<Rightarrow> ('p \<times> 'p list) list \<Rightarrow> 'p digraph" where
  "DiGraph eq d =
     \<lparr> vertices = fold (add_vertex eq) (concat (map (\<lambda>(u, vs). u # vs) d)) [],
       arcs = concat (map (\<lambda>(u, vs). map (Pair u) vs) d) \<rparr>"

text \<open>
  No member of the list is equal, under \<open>eq\<close>, to a later one. This is how the lists
  \<open>D\<close> of the graph builder, the keys of a dictionary and the vertices of a graph are
  kept: a new member is compared with the members already there.
\<close>

fun eq_distinct :: "('p \<Rightarrow> 'p \<Rightarrow> bool) \<Rightarrow> 'p list \<Rightarrow> bool" where
  "eq_distinct eq [] = True"
| "eq_distinct eq (x # xs) = (list_all (\<lambda>y. \<not> eq x y) xs \<and> eq_distinct eq xs)"

section \<open>cyclegraph over a finite field\<close>

text \<open>
  \<open>cyclegraph(self)\<close> of \<open>DynamicalSystem_projective_finite_field\<close>. The domain is a
  projective space, given by the list of its points in the order of the iteration
  \<open>for P in self.domain()\<close>, or a subscheme, given by the points of its ambient space
  and the test whether \<open>X.point(P)\<close> accepts the point (it raises \<open>TypeError\<close>
  otherwise).
\<close>

datatype 'p ds_domain = ProjectiveSpace "'p list" | Subscheme "'p list" "'p \<Rightarrow> bool"

text \<open>
  The loop over a projective space. A \<open>ValueError\<close> of the evaluation is caught
  (\<open>except ValueError: #indeterminacy\<close>) and gives the empty list of out-neighbours;
  any other exception leaves the method.
\<close>

fun cyclegraph_space :: "(bool \<Rightarrow> 'p \<Rightarrow> error + 'p) \<Rightarrow> ('p \<Rightarrow> 'p) \<Rightarrow> 'p list
    \<Rightarrow> 'p list \<times> 'p list list \<Rightarrow> error + 'p list \<times> 'p list list" where
  "cyclegraph_space call nrm [] (V, E) = Inr (V, E)"
| "cyclegraph_space call nrm (P # Ps) (V, E) =
     (case call True P of
        Inr Q \<Rightarrow> cyclegraph_space call nrm Ps (V @ [P], E @ [[nrm Q]])
      | Inl ValueError \<Rightarrow> cyclegraph_space call nrm Ps (V @ [P], E @ [[]])
      | Inl e \<Rightarrow> Inl e)"

text \<open>
  The loop over the ambient space of a subscheme. The outer \<open>except TypeError: pass\<close>
  also catches a \<open>TypeError\<close> of the evaluation, after \<open>V.append(XP)\<close> and before any
  \<open>E.append\<close>.
\<close>

fun cyclegraph_subscheme :: "(bool \<Rightarrow> 'p \<Rightarrow> error + 'p) \<Rightarrow> ('p \<Rightarrow> 'p) \<Rightarrow> ('p \<Rightarrow> bool)
    \<Rightarrow> 'p list \<Rightarrow> 'p list \<times> 'p list list \<Rightarrow> error + 'p list \<times> 'p list list" where
  "cyclegraph_subscheme call nrm on_X [] (V, E) = Inr (V, E)"
| "cyclegraph_subscheme call nrm on_X (P # Ps) (V, E) =
     (if \<not> on_X P then cyclegraph_subscheme call nrm on_X Ps (V, E)
      else
        (case call True P of
           Inr Q \<Rightarrow> cyclegraph_subscheme call nrm on_X Ps (V @ [P], E @ [[nrm Q]])
         | Inl ValueError \<Rightarrow> cyclegraph_subscheme call nrm on_X Ps (V @ [P], E @ [[]])
         | Inl TypeError \<Rightarrow> cyclegraph_subscheme call nrm on_X Ps (V @ [P], E)
         | Inl e \<Rightarrow> Inl e))"

definition cyclegraph :: "(bool \<Rightarrow> 'p \<Rightarrow> error + 'p) \<Rightarrow> ('p \<Rightarrow> 'p) \<Rightarrow> ('p \<Rightarrow> 'p \<Rightarrow> bool)
    \<Rightarrow> 'p ds_domain \<Rightarrow> error + 'p digraph" where
  "cyclegraph call nrm eq X =
     (case (case X of
              ProjectiveSpace pts \<Rightarrow> cyclegraph_space call nrm pts ([], [])
            | Subscheme pts on_X \<Rightarrow> cyclegraph_subscheme call nrm on_X pts ([], []))
      of Inl e \<Rightarrow> Inl e
       | Inr (V, E) \<Rightarrow> Inr (DiGraph eq (dict_zip eq V E)))"

text \<open>
  The points of the domain: those of the projective space, or the points of the ambient
  space that \<open>X.point\<close> accepts, in the order of the iteration.
\<close>

definition domain_points :: "'p ds_domain \<Rightarrow> 'p list" where
  "domain_points X =
     (case X of ProjectiveSpace pts \<Rightarrow> pts | Subscheme pts on_X \<Rightarrow> filter on_X pts)"

text \<open>
  The map \<open>[x^3, x*y^2]\<close> reduced to \<open>GF(3)\<close>, on the four points of the projective
  line: \<open>(0 : 1)\<close> is a point of indeterminacy. Images are normalized so that the last
  nonzero coordinate is 1.
\<close>

definition cube_map_mod3 :: "bool \<Rightarrow> int \<times> int \<Rightarrow> error + int \<times> int" where
  "cube_map_mod3 check Q =
     (let R = (fst Q ^ 3 mod 3, (fst Q * snd Q ^ 2) mod 3)
      in if check \<and> R = (0, 0) then Inl ValueError else Inr R)"

definition normalize_mod3 :: "int \<times> int \<Rightarrow> int \<times> int" where
  "normalize_mod3 Q =
     (if snd Q mod 3 = 0 then (if fst Q mod 3 = 0 then (0, 0) else (1, 0))
      else ((fst Q * snd Q) mod 3, 1))"

definition P1_GF3 :: "(int \<times> int) list" where
  "P1_GF3 = [(0, 1), (1, 1), (2, 1), (1, 0)]"

section \<open>_preperiodic_points_to_cyclegraph\<close>

text \<open>
  \<open>D.index(val)\<close> with its \<open>ValueError\<close> caught: the first member of \<open>D\<close> equal to the
  point, if there is one.
\<close>

fun D_index :: "('p \<Rightarrow> 'p \<Rightarrow> bool) \<Rightarrow> 'p list \<Rightarrow> 'p \<Rightarrow> 'p option" where
  "D_index eq [] val = None"
| "D_index eq (d # D) val = (if eq d val then Some d else D_index eq D val)"

text \<open>
  The loop \<open>for val in preper\<close> with the lists \<open>V\<close>, \<open>E\<close> and \<open>D\<close>. The evaluation
  \<open>self(val)\<close> checks its result; an exception of it leaves the method.
\<close>

fun preperiodic_loop :: "(bool \<Rightarrow> 'p \<Rightarrow> error + 'p) \<Rightarrow> ('p \<Rightarrow> 'p) \<Rightarrow> ('p \<Rightarrow> 'p \<Rightarrow> bool)
    \<Rightarrow> 'p list \<Rightarrow> 'p list \<times> 'p list list \<times> 'p list \<Rightarrow> error + 'p list \<times> 'p list list \<times> 'p list" where
  "preperiodic_loop call nrm eq [] (V, E, D) = Inr (V, E, D)"
| "preperiodic_loop call nrm eq (val # preper) (V, E, D) =
     (let (V1, D1) = (case D_index eq D val of
                        Some d \<Rightarrow> (V @ [d], D)
                      | None \<Rightarrow> (V @ [val], D @ [val]))
      in case call True val of
           Inl e \<Rightarrow> Inl e
         | Inr Q0 \<Rightarrow>
             (let Q = nrm Q0;
                  (E1, D2) = (case D_index eq D1 Q of
                                Some d \<Rightarrow> (E @ [[d]], D1)
                              | None \<Rightarrow> (E @ [[Q]], D1 @ [Q]))
              in preperiodic_loop call nrm eq preper (V1, E1, D2)))"

definition preperiodic_points_to_cyclegraph :: "(bool \<Rightarrow> 'p \<Rightarrow> error + 'p) \<Rightarrow> ('p \<Rightarrow> 'p)
    \<Rightarrow> ('p \<Rightarrow> 'p \<Rightarrow> bool) \<Rightarrow> 'p list \<Rightarrow> error + 'p digraph" where
  "preperiodic_points_to_cyclegraph call nrm eq preper =
     (case preperiodic_loop call nrm eq preper ([], [], []) of
        Inl e \<Rightarrow> Inl e
      | Inr (V, E, D) \<Rightarrow> Inr (DiGraph eq (dict_zip eq V E)))"

section \<open>lift_to_rational_periodic\<close>

text \<open>
  A point over \<open>QQ\<close> is the list of its \<open>N + 1\<close> coordinates, a point over a quotient
  of \<open>ZZ\<close> the list of the representatives of its coordinates. The operations of the
  library that the method calls are the fields of \<open>lift_ops\<close>; the method's own
  arithmetic on coordinates, its control flow and its bookkeeping of precisions are
  written out.
  \<^item> \<open>rmod x m\<close>: \<open>x % m\<close> for a rational \<open>x\<close>;
  \<^item> \<open>lp_det T n k\<close>: the determinant \<open>ldet\<close> of \<open>lp\<close>, which is
    \<open>_multipliermod(T, n, p, 2*k)\<close> minus the identity, over \<open>Zmod(p^k)\<close>;
  \<^item> \<open>lp_solve T n k vecs\<close>: \<open>lp.inverse() * vector(vecs)\<close> for the same \<open>lp\<close>;
  \<^item> \<open>clear_denominators\<close>, \<open>normalize_coordinates\<close>: the methods of a point;
  \<^item> \<open>nth_iterate_quo m T n\<close>: the \<open>n\<close>-th iterate of \<open>T\<close> under the map over
    \<open>ZZ.quo(m)\<close>, moved back to \<open>QQ\<close>;
  \<^item> \<open>to_Zmod m x\<close>: the coercion \<open>Zmod(m)(x)\<close> of a rational;
  \<^item> \<open>nth_iterate_Zmod m T n\<close> and \<open>eq_Zmod m\<close>: the \<open>n\<close>-th iterate and \<open>==\<close> of points
    over \<open>Zmod(m)\<close>;
  \<^item> \<open>LLL\<close>: the reduction \<open>M.LLL()\<close> of an integer matrix, a list of rows;
  \<^item> \<open>self_call\<close> and \<open>peq\<close>: the evaluation \<open>self(newP)\<close> over \<open>QQ\<close>, with its flag
    \<open>check\<close>, and \<open>==\<close> of points over \<open>QQ\<close>.
\<close>

record lift_ops =
  rmod :: "rat \<Rightarrow> nat \<Rightarrow> int"
  lp_det :: "rat list \<Rightarrow> nat \<Rightarrow> nat \<Rightarrow> int"
  lp_solve :: "rat list \<Rightarrow> nat \<Rightarrow> nat \<Rightarrow> int list \<Rightarrow> int list"
  clear_denominators :: "rat list \<Rightarrow> rat list"
  normalize_coordinates :: "rat list \<Rightarrow> rat list"
  nth_iterate_quo :: "nat \<Rightarrow> rat list \<Rightarrow> nat \<Rightarrow> rat list"
  to_Zmod :: "nat \<Rightarrow> rat \<Rightarrow> int"
  nth_iterate_Zmod :: "nat \<Rightarrow> int list \<Rightarrow> nat \<Rightarrow> int list"
  eq_Zmod :: "nat \<Rightarrow> int list \<Rightarrow> int list \<Rightarrow> bool"
  LLL :: "int list list \<Rightarrow> int list list"
  self_call :: "bool \<Rightarrow> rat list \<Rightarrow> error + rat list"
  peq :: "rat list \<Rightarrow> rat list \<Rightarrow> bool"

text \<open>A candidate \<open>[point, period, current p-adic precision]\<close> of the list \<open>points\<close>.\<close>

type_synonym candidate = "rat list \<times> nat \<times> nat"

text \<open>
  The precision target
  \<open>L = R((R(2 ** (N/2 + 1) * sqrt(N+1) * B**2).log()) / R(p).log() + 1).trunc()\<close>,
  over the real numbers. For \<open>B \<ge> 1\<close> the truncated number is positive.
\<close>

definition precision_target :: "nat \<Rightarrow> nat \<Rightarrow> real \<Rightarrow> nat" where
  "precision_target N p B =
     nat \<lfloor>ln (2 powr (real N / 2 + 1) * sqrt (real N + 1) * B\<^sup>2) / ln (real p) + 1\<rfloor>"

text \<open>\<open>P.scale_by(t)\<close> multiplies every coordinate by \<open>t\<close>.\<close>

definition scale_by :: "rat list \<Rightarrow> rat \<Rightarrow> rat list" where
  "scale_by T t = map (\<lambda>x. x * t) T"

text \<open>
  \<open>qindex = N; while q[0][qindex] % p == 0: qindex -= 1\<close>. Below 0 the index wraps
  around to coordinates that were already seen to be 0 modulo \<open>p\<close>, until it leaves
  the tuple: a point with all coordinates 0 modulo \<open>p\<close> ends in an \<open>IndexError\<close>.
\<close>

fun find_qindex :: "lift_ops \<Rightarrow> nat \<Rightarrow> rat list \<Rightarrow> nat \<Rightarrow> error + nat" where
  "find_qindex ops p T 0 = (if rmod ops (T ! 0) p = 0 then Inl IndexError else Inr 0)"
| "find_qindex ops p T (Suc i) =
     (if rmod ops (T ! Suc i) p = 0 then find_qindex ops p T i else Inr (Suc i))"

text \<open>
  The branch \<open>if ldet % p != 0\<close> of the inner loop. The result is the new
  \<open>(T, k, bad, points)\<close>; with \<open>bad\<close> the loop is left by \<open>break\<close>. The two
  divisions raise \<open>ZeroDivisionError\<close> on a zero coordinate. \<open>newton_update\<close> is the
  part after the test of the differences \<open>newS\<close>: the Newton step that gives the new
  point \<open>T\<close>.
\<close>

definition newton_update :: "lift_ops \<Rightarrow> nat \<Rightarrow> nat \<Rightarrow> nat \<Rightarrow> nat \<Rightarrow> rat list \<Rightarrow> rat list
    \<Rightarrow> rat list \<Rightarrow> nat \<Rightarrow> rat list" where
  "newton_update ops p N qindex n T T2 newS k =
     (let S2 = scale_by newS (- 1 / of_nat (p ^ k));
          vecs = map (\<lambda>iS. to_Zmod ops (p ^ k) (S2 ! iS)) [0..<N + 1];
          vecs' = take qindex vecs @ drop (Suc qindex) vecs;
          newvecs = lp_solve ops T n k vecs';
          newS' = map (\<lambda>i. of_int (newvecs ! i)) [0..<qindex] @ [0]
                    @ map (\<lambda>i. of_int (newvecs ! i)) [qindex..<N];
          S3 = map (\<lambda>i. of_int (rmod ops (newS' ! i) (p ^ k))) [0..<N + 1];
          newT = map (\<lambda>i. T2 ! i + S3 ! i * of_nat (p ^ k)) [0..<N + 1]
      in normalize_coordinates ops newT)"

definition hensel_step :: "lift_ops \<Rightarrow> nat \<Rightarrow> nat \<Rightarrow> nat \<Rightarrow> nat \<Rightarrow> nat \<Rightarrow> rat list \<Rightarrow> nat
    \<Rightarrow> candidate list \<Rightarrow> error + rat list \<times> nat \<times> bool \<times> candidate list" where
  "hensel_step ops p N L qindex n T k points =
     (let T1 = clear_denominators ops T;
          S0 = nth_iterate_quo ops (p ^ (2 * k)) T1 n
      in if T1 ! qindex = 0 \<or> S0 ! qindex = 0 then Inl ZeroDivisionError
         else
           (let T2 = scale_by T1 (1 / T1 ! qindex);
                S1 = scale_by S0 (1 / S0 ! qindex);
                newS = map (\<lambda>i. S1 ! i - T2 ! i) [0..<N + 1]
            in if list_ex (\<lambda>i. rmod ops (newS ! i) (p ^ k) \<noteq> 0 \<and> i \<noteq> N) [0..<N + 1]
               then Inr (T2, k, True, points)
               else Inr (newton_update ops p N qindex n T T2 newS k, min (2 * k) L, False, points)))"

text \<open>
  \<open>xmrange(sizes)\<close> of the library iterates over the tuples \<open>t\<close> with
  \<open>0 \<le> t[i] < sizes[i]\<close>, the last index running fastest.
\<close>

fun xmrange :: "nat list \<Rightarrow> nat list list" where
  "xmrange [] = [[]]"
| "xmrange (s # sizes) = concat (map (\<lambda>x. map ((#) x) (xmrange sizes)) [0..<s])"

text \<open>
  The lift of \<open>T\<close> by one tuple \<open>shift\<close>: the coordinates move to \<open>Zmod(p^(k+1))\<close> and
  every coordinate but the one at \<open>qindex\<close> gets its digit \<open>shift[shiftindex] * p^k\<close>.
\<close>

definition shifted :: "lift_ops \<Rightarrow> nat \<Rightarrow> nat \<Rightarrow> nat \<Rightarrow> rat list \<Rightarrow> nat \<Rightarrow> nat list \<Rightarrow> int list" where
  "shifted ops p N qindex T k shift =
     map (\<lambda>i. if i \<noteq> qindex
               then (to_Zmod ops (p ^ (k + 1)) (T ! i)
                      + int (shift ! (if i < qindex then i else i - 1)) * int (p ^ k))
                    mod int (p ^ (k + 1))
               else to_Zmod ops (p ^ (k + 1)) (T ! i))
         [0..<N + 1]"

text \<open>
  The branch \<open>else\<close> of the inner loop: all lifts to the precision \<open>k + 1\<close>. The state
  of the loop \<open>for shift in shifts\<close> is \<open>newq\<close> (empty, or the first lift that is
  periodic) and the list \<open>points\<close>, to which the later periodic lifts are appended.
\<close>

definition try_shift :: "lift_ops \<Rightarrow> nat \<Rightarrow> nat \<Rightarrow> nat \<Rightarrow> nat \<Rightarrow> rat list \<Rightarrow> nat \<Rightarrow> nat list
    \<Rightarrow> candidate option \<times> candidate list \<Rightarrow> candidate option \<times> candidate list" where
  "try_shift ops p N qindex n T k shift st =
     (let newT = shifted ops p N qindex T k shift;
          TT = nth_iterate_Zmod ops (p ^ (k + 1)) newT n
      in if eq_Zmod ops (p ^ (k + 1)) TT newT
         then (case fst st of
                 None \<Rightarrow> (Some (map of_int newT, n, k + 1), snd st)
               | Some q \<Rightarrow> (Some q, snd st @ [(map of_int newT, n, k + 1)]))
         else st)"

definition branch_step :: "lift_ops \<Rightarrow> nat \<Rightarrow> nat \<Rightarrow> nat \<Rightarrow> nat \<Rightarrow> rat list \<Rightarrow> nat
    \<Rightarrow> candidate list \<Rightarrow> rat list \<times> nat \<times> bool \<times> candidate list" where
  "branch_step ops p N qindex n T k points =
     (let shifts = xmrange (replicate N p);
          st = fold (try_shift ops p N qindex n T k) shifts (None, points)
      in case fst st of
           None \<Rightarrow> (T, k, True, snd st)
         | Some newq \<Rightarrow> (fst newq, k + 1, False, snd st))"

definition lift_step :: "lift_ops \<Rightarrow> nat \<Rightarrow> nat \<Rightarrow> nat \<Rightarrow> nat \<Rightarrow> nat \<Rightarrow> rat list \<Rightarrow> nat
    \<Rightarrow> candidate list \<Rightarrow> error + rat list \<times> nat \<times> bool \<times> candidate list" where
  "lift_step ops p N L qindex n T k points =
     (if lp_det ops T n k mod int p \<noteq> 0
      then hensel_step ops p N L qindex n T k points
      else Inr (branch_step ops p N qindex n T k points))"

text \<open>
  The inner loop \<open>while k < L and bad == 0\<close>. The fuel bounds the number of its rounds;
  \<open>None\<close> says that the fuel did not suffice.
\<close>

fun hensel_loop :: "lift_ops \<Rightarrow> nat \<Rightarrow> nat \<Rightarrow> nat \<Rightarrow> nat \<Rightarrow> nat \<Rightarrow> nat \<Rightarrow> rat list \<Rightarrow> nat
    \<Rightarrow> candidate list \<Rightarrow> (error + rat list \<times> nat \<times> bool \<times> candidate list) option" where
  "hensel_loop ops p N L 0 qindex n T k points = None"
| "hensel_loop ops p N L (Suc fuel) qindex n T k points =
     (if k < L then
        (case lift_step ops p N L qindex n T k points of
           Inl e \<Rightarrow> Some (Inl e)
         | Inr (T', k', bad, points') \<Rightarrow>
             if bad then Some (Inr (T', k', True, points'))
             else hensel_loop ops p N L fuel qindex n T' k' points')
      else Some (Inr (T, k, False, points)))"

text \<open>
  The lattice of the reconstruction: the first row is the point with its denominators
  cleared, row \<open>i + 1\<close> has \<open>p^L\<close> in column \<open>i\<close>. The candidate is row 1 of the
  reduced matrix; it is refused when a coordinate exceeds \<open>B * gcd(Q)\<close>.
\<close>

definition lattice :: "nat \<Rightarrow> nat \<Rightarrow> nat \<Rightarrow> rat list \<Rightarrow> int list list" where
  "lattice p N L T =
     map (\<lambda>i. \<lfloor>T ! i\<rfloor>) [0..<N + 1]
       # map (\<lambda>r. map (\<lambda>c. if c = r then int (p ^ L) else 0) [0..<N + 1]) [0..<N + 1]"

definition reconstruct :: "lift_ops \<Rightarrow> nat \<Rightarrow> nat \<Rightarrow> nat \<Rightarrow> real \<Rightarrow> rat list \<Rightarrow> int list option" where
  "reconstruct ops p N L B T =
     (let M = LLL ops (lattice p N L (clear_denominators ops T));
          Q = map (\<lambda>i. M ! 1 ! i) [0..<N + 1];
          g = fold gcd Q 0;
          newB = B * real_of_int g
      in if list_ex (\<lambda>i. real_of_int \<bar>Q ! i\<bar> > newB) [0..<N + 1] then None else Some Q)"

text \<open>
  The check that the reconstructed point is periodic:
  \<open>while not done and k <= n\<close>, with \<open>newP = self(newP)\<close> and the test \<open>newP == P\<close>.
  The membership \<open>[P, k] in good_points\<close> compares the point with \<open>==\<close>.
\<close>

function verify_periodic :: "lift_ops \<Rightarrow> rat list \<Rightarrow> rat list \<Rightarrow> nat \<Rightarrow> nat
    \<Rightarrow> (rat list \<times> nat) list \<Rightarrow> error + (rat list \<times> nat) list" where
  "verify_periodic ops P newP k n good_points =
     (if k \<le> n then
        (case self_call ops True newP of
           Inl e \<Rightarrow> Inl e
         | Inr newP' \<Rightarrow>
             if peq ops newP' P
             then Inr (if list_ex (\<lambda>g. peq ops P (fst g) \<and> k = snd g) good_points
                       then good_points else good_points @ [(newP', k)])
             else verify_periodic ops P newP' (k + 1) n good_points)
      else Inr good_points)"
  by pat_completeness auto
termination
  by (relation "measure (\<lambda>(ops, P, newP, k, n, good_points). n + 1 - k)") auto

text \<open>
  The outer loop \<open>while points\<close>: \<open>points.pop()\<close> takes the last candidate. The fuel
  bounds the number of candidates that are taken and the rounds of each inner loop.
\<close>

fun lift_loop :: "lift_ops \<Rightarrow> nat \<Rightarrow> nat \<Rightarrow> nat \<Rightarrow> real \<Rightarrow> nat \<Rightarrow> candidate list
    \<Rightarrow> (rat list \<times> nat) list \<Rightarrow> (error + (rat list \<times> nat) list) option" where
  "lift_loop ops p N L B 0 points good_points = None"
| "lift_loop ops p N L B (Suc fuel) points good_points =
     (if points = [] then Some (Inr good_points)
      else
        (let q = last points; points1 = butlast points in
         case find_qindex ops p (fst q) N of
           Inl e \<Rightarrow> Some (Inl e)
         | Inr qindex \<Rightarrow>
             (let T = scale_by (fst q) (1 / fst q ! qindex); n = fst (snd q); k = snd (snd q) in
              case hensel_loop ops p N L (Suc fuel) qindex n T k points1 of
                None \<Rightarrow> None
              | Some (Inl e) \<Rightarrow> Some (Inl e)
              | Some (Inr (T', k', bad, points2)) \<Rightarrow>
                  if bad then lift_loop ops p N L B fuel points2 good_points
                  else
                    (case reconstruct ops p N L B T' of
                       None \<Rightarrow> lift_loop ops p N L B fuel points2 good_points
                     | Some Q \<Rightarrow>
                         (case verify_periodic ops (map of_int Q) (map of_int Q) 1 n good_points of
                            Inl e \<Rightarrow> Some (Inl e)
                          | Inr good_points' \<Rightarrow> lift_loop ops p N L B fuel points2 good_points')))))"

text \<open>
  \<open>lift_to_rational_periodic(self, points_modp, B=None)\<close>. \<open>p\<close> is the characteristic
  of the base ring of the first point, \<open>N\<close> the dimension of the space, and
  \<open>height_bound\<close> the value of \<open>height_difference_bound()\<close>, used when \<open>B\<close> is absent.
\<close>

definition lift_to_rational_periodic :: "lift_ops \<Rightarrow> nat \<Rightarrow> nat \<Rightarrow> nat \<Rightarrow> real
    \<Rightarrow> (int list \<times> nat) list \<Rightarrow> real option \<Rightarrow> (error + (rat list \<times> nat) list) option" where
  "lift_to_rational_periodic ops fuel N p height_bound points_modp B =
     (if points_modp = [] then Some (Inr [])
      else
        (let B' = (case B of None \<Rightarrow> exp height_bound | Some b \<Rightarrow> b) in
         if p = 0 then Some (Inl TypeError)
         else
           (let L = precision_target N p B';
                points = map (\<lambda>pm. (map of_int (fst pm), snd pm, 1)) points_modp
            in lift_loop ops p N L B' fuel points [])))"

text \<open>
  The list of out-neighbours that a round of the loop of \<open>cyclegraph\<close> appends to
  \<open>E\<close> for the point \<open>P\<close>, when the evaluation raises nothing but \<open>ValueError\<close>.
\<close>

definition out_list :: "(bool \<Rightarrow> 'p \<Rightarrow> error + 'p) \<Rightarrow> ('p \<Rightarrow> 'p) \<Rightarrow> 'p \<Rightarrow> 'p list" where
  "out_list ev nrm P = (case ev True P of Inr Q \<Rightarrow> [nrm Q] | Inl e \<Rightarrow> [])"

text \<open>
  The image of a listed point under the map, normalized, as
  \<open>_preperiodic_points_to_cyclegraph\<close> computes it with \<open>self(val)\<close> and
  \<open>normalize_coordinates\<close>, where the evaluation succeeds.
\<close>

definition image_of :: "(bool \<Rightarrow> 'p \<Rightarrow> error + 'p) \<Rightarrow> ('p \<Rightarrow> 'p) \<Rightarrow> 'p \<Rightarrow> 'p" where
  "image_of ev nrm p = (case ev True p of Inr r \<Rightarrow> nrm r | Inl e \<Rightarrow> p)"

text \<open>
  The map \<open>[x^2 - 2*y^2, y^2]\<close> of the docstring of \<open>_preperiodic_points_to_cyclegraph\<close>,
  reduced to \<open>GF(3)\<close>, on points given by integer representatives; two points are equal
  when their normalized coordinates are. The list of points names \<open>(1 : 1)\<close> and
  \<open>(1 : 0)\<close> twice, by different representatives.
\<close>

definition sq_map_mod3 :: "bool \<Rightarrow> int \<times> int \<Rightarrow> error + int \<times> int" where
  "sq_map_mod3 check Q =
     (let a = fst Q mod 3; b = snd Q mod 3;
          R = ((a * a + b * b) mod 3, (b * b) mod 3)
      in if check \<and> R = (0, 0) then Inl ValueError else Inr R)"

definition eq_mod3 :: "int \<times> int \<Rightarrow> int \<times> int \<Rightarrow> bool" where
  "eq_mod3 P Q = (normalize_mod3 P = normalize_mod3 Q)"

definition preper_mod3 :: "(int \<times> int) list" where
  "preper_mod3 = [(0, 1), (1, 1), (2, 2), (2, 1), (1, 0), (4, 0)]"

text \<open>
  The lifts of \<open>T\<close> to the precision \<open>k + 1\<close> that are periodic there, in the order of
  the tuples of \<open>xmrange\<close>: what the claim about the branching step calls the
  surviving lifts.
\<close>

definition periodic_lifts :: "lift_ops \<Rightarrow> nat \<Rightarrow> nat \<Rightarrow> nat \<Rightarrow> nat \<Rightarrow> rat list \<Rightarrow> nat
    \<Rightarrow> int list list" where
  "periodic_lifts ops p N qindex n T k =
     filter (\<lambda>newT. eq_Zmod ops (p ^ (k + 1)) (nth_iterate_Zmod ops (p ^ (k + 1)) newT n) newT)
       (map (shifted ops p N qindex T k) (xmrange (replicate N p)))"

text \<open>
  \<open>n\<close> evaluations of the map, each with its check, from the point \<open>P\<close>: the exact
  \<open>n\<close>-th iterate that the claim about the returned pairs speaks of.
\<close>

fun iterate_call :: "lift_ops \<Rightarrow> nat \<Rightarrow> rat list \<Rightarrow> error + rat list" where
  "iterate_call ops 0 P = Inr P"
| "iterate_call ops (Suc n) P =
     (case self_call ops True P of Inl e \<Rightarrow> Inl e | Inr P' \<Rightarrow> iterate_call ops n P')"

subsection \<open>The operations for a map of the projective line\<close>

text \<open>
  The operations of the library for the map \<open>[x^2 - y^2, y^2]\<close> of the first example in
  the docstring of \<open>lift_to_rational_periodic\<close>, on the projective line and for a
  prime \<open>p\<close>, written out for the examples below. \<open>rat_mod\<close> is \<open>%\<close> for a rational:
  numerator times the inverse of the denominator. The multiplier of the \<open>n\<close>-th
  iterate at \<open>(x : 1)\<close> is the product of the derivatives \<open>2 * x\<close> along the orbit.
  A point over \<open>QQ\<close> is normalized by making its last nonzero coordinate 1, and two
  points are equal when their normalized coordinates are. The lattice reduction is
  given on the one lattice of the example.
\<close>

definition inverse_mod :: "int \<Rightarrow> nat \<Rightarrow> int" where
  "inverse_mod b m =
     (if b = 1 then 1
      else (case find (\<lambda>y. (b * y) mod int m = 1 mod int m) (map int [0..<m]) of
              Some y \<Rightarrow> y | None \<Rightarrow> 0))"

definition rat_mod :: "rat \<Rightarrow> nat \<Rightarrow> int" where
  "rat_mod x m = (fst (quotient_of x) * inverse_mod (snd (quotient_of x)) m) mod int m"

definition quad_map :: "'a::comm_ring_1 list \<Rightarrow> 'a list" where
  "quad_map Q = [Q ! 0 * Q ! 0 - Q ! 1 * Q ! 1, Q ! 1 * Q ! 1]"

fun iterate_mod :: "nat \<Rightarrow> nat \<Rightarrow> int list \<Rightarrow> int list" where
  "iterate_mod m 0 Q = map (\<lambda>x. x mod int m) Q"
| "iterate_mod m (Suc n) Q = iterate_mod m n (map (\<lambda>x. x mod int m) (quad_map Q))"

fun multiplier_mod :: "nat \<Rightarrow> nat \<Rightarrow> int \<Rightarrow> int" where
  "multiplier_mod m 0 x = 1"
| "multiplier_mod m (Suc n) x =
     (2 * x * multiplier_mod m n ((x * x - 1) mod int m)) mod int m"

definition quad_lp :: "nat \<Rightarrow> rat list \<Rightarrow> nat \<Rightarrow> nat \<Rightarrow> int" where
  "quad_lp p T n k =
     (multiplier_mod (p ^ (2 * k)) n (rat_mod (T ! 0 / T ! 1) (p ^ (2 * k))) - 1) mod int (p ^ k)"

definition quad_LLL :: "int list list \<Rightarrow> int list list" where
  "quad_LLL M = (if M = [[0, 1], [49, 0], [0, 49]] then [[0, 0], [0, 1], [49, 0]] else M)"

definition quad_normalize :: "rat list \<Rightarrow> rat list" where
  "quad_normalize T =
     (if T ! 1 \<noteq> 0 then [T ! 0 / T ! 1, 1] else if T ! 0 \<noteq> 0 then [1, 0] else T)"

definition quad_ops :: "nat \<Rightarrow> lift_ops" where
  "quad_ops p =
     \<lparr> rmod = rat_mod,
       lp_det = quad_lp p,
       lp_solve = (\<lambda>T n k vecs.
          map (\<lambda>v. (inverse_mod (quad_lp p T n k) (p ^ k) * v) mod int (p ^ k)) vecs),
       clear_denominators = (\<lambda>T.
          map (\<lambda>x. x * of_int (fold (\<lambda>y. lcm (snd (quotient_of y))) T 1)) T),
       normalize_coordinates = quad_normalize,
       nth_iterate_quo = (\<lambda>m T n. map of_int (iterate_mod m n (map (\<lambda>x. rat_mod x m) T))),
       to_Zmod = (\<lambda>m x. rat_mod x m),
       nth_iterate_Zmod = (\<lambda>m T n. iterate_mod m n T),
       eq_Zmod = (\<lambda>m P Q. (P ! 0 * Q ! 1 - P ! 1 * Q ! 0) mod int m = 0),
       LLL = quad_LLL,
       self_call = (\<lambda>check P.
          if check \<and> list_all (\<lambda>x. x = 0) (quad_map P) then Inl ValueError else Inr (quad_map P)),
       peq = (\<lambda>P Q. quad_normalize P = quad_normalize Q) \<rparr>"

section \<open>Properties of orbit\<close>

text \<open>
  One round of either loop moves the point by the map and, with \<open>normalize\<close>,
  normalizes the image: this is the step \<open>orbit_step\<close> of the lemmas below, for a
  function \<open>F\<close> that gives the images where the evaluation succeeds.
\<close>

lemma orbit_collect_run:
  assumes G: "\<And>R. G R = (if dn then nrm (F R) else F R)"
    and run: "\<And>i. i < n \<Longrightarrow> call check ((G ^^ i) Q) = Inr (F ((G ^^ i) Q))"
  shows "orbit_collect call nrm check dn n Q = Inr (map (\<lambda>i. (G ^^ Suc i) Q) [0..<n])"
  using run
proof (induction n arbitrary: Q)
  case 0
  then show ?case by simp
next
  case (Suc n)
  have c0: "call check Q = Inr (F Q)" using Suc.prems[of 0] by simp
  have step: "call check ((G ^^ i) (G Q)) = Inr (F ((G ^^ i) (G Q)))" if "i < n" for i
    using Suc.prems[of "Suc i"] that by (simp only: funpow_Suc_right o_apply Suc_less_eq)
  have ih: "orbit_collect call nrm check dn n (G Q) = Inr (map (\<lambda>i. (G ^^ Suc i) (G Q)) [0..<n])"
    by (rule Suc.IH) (rule step)
  have m: "map (\<lambda>i. (G ^^ Suc i) Q) [0..<Suc n] = G Q # map (\<lambda>i. (G ^^ Suc i) (G Q)) [0..<n]"
    by (simp only: map_upt_Suc funpow_Suc_right o_apply funpow_0)
  have "orbit_collect call nrm check dn (Suc n) Q
      = (case orbit_collect call nrm check dn n (G Q) of Inl e \<Rightarrow> Inl e | Inr qs \<Rightarrow> Inr (G Q # qs))"
    using c0 by (cases dn) (simp_all add: Let_def G split: sum.splits)
  then show ?case by (simp only: ih m sum.case)
qed

lemma orbit_collect_fail:
  assumes G: "\<And>R. G R = (if dn then nrm (F R) else F R)"
    and j: "j < n"
    and run: "\<And>i. i < j \<Longrightarrow> call check ((G ^^ i) Q) = Inr (F ((G ^^ i) Q))"
    and stop: "call check ((G ^^ j) Q) = Inl e"
  shows "orbit_collect call nrm check dn n Q = Inl e"
  using j run stop
proof (induction n arbitrary: Q j)
  case 0
  then show ?case by simp
next
  case (Suc n)
  show ?case
  proof (cases j)
    case 0
    then show ?thesis using Suc.prems(3) by simp
  next
    case (Suc j')
    have c0: "call check Q = Inr (F Q)" using Suc.prems(2)[of 0] Suc by simp
    have step: "call check ((G ^^ i) (G Q)) = Inr (F ((G ^^ i) (G Q)))" if "i < j'" for i
      using Suc.prems(2)[of "Suc i"] that Suc
      by (simp only: funpow_Suc_right o_apply Suc_less_eq)
    have last: "call check ((G ^^ j') (G Q)) = Inl e"
      using Suc.prems(3) unfolding Suc by (simp only: funpow_Suc_right o_apply)
    have lt: "j' < n" using Suc.prems(1) Suc by simp
    have "orbit_collect call nrm check dn n (G Q) = Inl e"
      using lt step last by (rule Suc.IH)
    then show ?thesis using c0 by (cases dn) (simp_all add: Let_def G)
  qed
qed

text \<open>
  Claim C10, as the code has it. With integer bounds \<open>[m, k]\<close>, \<open>orbit\<close> raises
  \<open>TypeError\<close> when \<open>m < 0\<close> or \<open>k < 0\<close>, whatever the map does, and returns the empty
  list when \<open>0 \<le> k < m\<close>. With one integer \<open>N \<ge> 0\<close> it returns the list
  \<open>[P, f(P), ..., f^N(P)]\<close> of length \<open>N + 1\<close>, every point normalized when
  \<open>normalize\<close> is set, provided that each of the \<open>N\<close> evaluations of the map succeeds;
  the exception of the first evaluation that fails leaves \<open>orbit\<close>. Here \<open>F\<close> gives
  the image of a point where the evaluation succeeds, and one step of the orbit is
  \<open>F\<close>, followed by the normalization when \<open>normalize\<close> is set.
\<close>

theorem orbit_bounds_and_list:
  "(m < 0 \<or> k < 0 \<longrightarrow> orbit call nrm P (Bounds m k) check dn = Inl TypeError) \<and>
   (0 \<le> k \<and> k < m \<longrightarrow> orbit call nrm P (Bounds m k) check dn = Inr []) \<and>
   (N < 0 \<longrightarrow> orbit call nrm P (Single N) check dn = Inl TypeError) \<and>
   (0 \<le> N \<and>
    (\<forall>i < nat N. call check (((\<lambda>Q. if dn then nrm (F Q) else F Q) ^^ i) (if dn then nrm P else P))
        = Inr (F (((\<lambda>Q. if dn then nrm (F Q) else F Q) ^^ i) (if dn then nrm P else P)))) \<longrightarrow>
      orbit call nrm P (Single N) check dn
        = Inr (map (\<lambda>i. ((\<lambda>Q. if dn then nrm (F Q) else F Q) ^^ i) (if dn then nrm P else P))
                 [0..<Suc (nat N)]) \<and>
      length (map (\<lambda>i. ((\<lambda>Q. if dn then nrm (F Q) else F Q) ^^ i) (if dn then nrm P else P))
                 [0..<Suc (nat N)]) = nat N + 1) \<and>
   (0 \<le> N \<and> j < nat N \<and>
    (\<forall>i < j. call check (((\<lambda>Q. if dn then nrm (F Q) else F Q) ^^ i) (if dn then nrm P else P))
        = Inr (F (((\<lambda>Q. if dn then nrm (F Q) else F Q) ^^ i) (if dn then nrm P else P)))) \<and>
    call check (((\<lambda>Q. if dn then nrm (F Q) else F Q) ^^ j) (if dn then nrm P else P)) = Inl e \<longrightarrow>
      orbit call nrm P (Single N) check dn = Inl e)"
proof -
  define G where "G = (\<lambda>Q. if dn then nrm (F Q) else F Q)"
  define P0 where "P0 = (if dn then nrm P else P)"
  have G: "G R = (if dn then nrm (F R) else F R)" for R by (simp add: G_def)
  have 1: "m < 0 \<or> k < 0 \<longrightarrow> orbit call nrm P (Bounds m k) check dn = Inl TypeError"
    by (auto simp: orbit_def)
  have 2: "0 \<le> k \<and> k < m \<longrightarrow> orbit call nrm P (Bounds m k) check dn = Inr []"
    by (auto simp: orbit_def)
  have 3: "N < 0 \<longrightarrow> orbit call nrm P (Single N) check dn = Inl TypeError"
    by (simp add: orbit_def)
  have orb: "orbit call nrm P (Single N) check dn
      = (case orbit_collect call nrm check dn (nat N) P0 of
           Inl e \<Rightarrow> Inl e | Inr qs \<Rightarrow> Inr (P0 # qs))" if "0 \<le> N"
    using that by (cases dn) (simp_all add: orbit_def P0_def split: sum.splits)
  have 4: "0 \<le> N \<and> (\<forall>i < nat N. call check ((G ^^ i) P0) = Inr (F ((G ^^ i) P0))) \<longrightarrow>
      orbit call nrm P (Single N) check dn = Inr (map (\<lambda>i. (G ^^ i) P0) [0..<Suc (nat N)]) \<and>
      length (map (\<lambda>i. (G ^^ i) P0) [0..<Suc (nat N)]) = nat N + 1"
  proof (rule impI)
    assume a: "0 \<le> N \<and> (\<forall>i < nat N. call check ((G ^^ i) P0) = Inr (F ((G ^^ i) P0)))"
    have r: "call check ((G ^^ i) P0) = Inr (F ((G ^^ i) P0))" if "i < nat N" for i
      using a that by simp
    have c: "orbit_collect call nrm check dn (nat N) P0
        = Inr (map (\<lambda>i. (G ^^ Suc i) P0) [0..<nat N])"
      using G r by (rule orbit_collect_run)
    have m: "map (\<lambda>i. (G ^^ i) P0) [0..<Suc (nat N)] = P0 # map (\<lambda>i. (G ^^ Suc i) P0) [0..<nat N]"
      by (simp only: map_upt_Suc funpow_0)
    have "orbit call nrm P (Single N) check dn = Inr (P0 # map (\<lambda>i. (G ^^ Suc i) P0) [0..<nat N])"
      using a by (simp only: orb c sum.case)
    then show "orbit call nrm P (Single N) check dn = Inr (map (\<lambda>i. (G ^^ i) P0) [0..<Suc (nat N)]) \<and>
      length (map (\<lambda>i. (G ^^ i) P0) [0..<Suc (nat N)]) = nat N + 1"
      by (simp only: m) simp
  qed
  have 5: "0 \<le> N \<and> j < nat N \<and> (\<forall>i < j. call check ((G ^^ i) P0) = Inr (F ((G ^^ i) P0))) \<and>
      call check ((G ^^ j) P0) = Inl e \<longrightarrow> orbit call nrm P (Single N) check dn = Inl e"
  proof (rule impI)
    assume a: "0 \<le> N \<and> j < nat N \<and> (\<forall>i < j. call check ((G ^^ i) P0) = Inr (F ((G ^^ i) P0))) \<and>
      call check ((G ^^ j) P0) = Inl e"
    have j: "j < nat N" using a by simp
    have r: "call check ((G ^^ i) P0) = Inr (F ((G ^^ i) P0))" if "i < j" for i
      using a that by simp
    have st: "call check ((G ^^ j) P0) = Inl e" using a by simp
    have "orbit_collect call nrm check dn (nat N) P0 = Inl e"
      using G j r st by (rule orbit_collect_fail)
    then show "orbit call nrm P (Single N) check dn = Inl e"
      using a by (simp only: orb sum.case)
  qed
  have "(m < 0 \<or> k < 0 \<longrightarrow> orbit call nrm P (Bounds m k) check dn = Inl TypeError) \<and>
   (0 \<le> k \<and> k < m \<longrightarrow> orbit call nrm P (Bounds m k) check dn = Inr []) \<and>
   (N < 0 \<longrightarrow> orbit call nrm P (Single N) check dn = Inl TypeError) \<and>
   (0 \<le> N \<and> (\<forall>i < nat N. call check ((G ^^ i) P0) = Inr (F ((G ^^ i) P0))) \<longrightarrow>
      orbit call nrm P (Single N) check dn = Inr (map (\<lambda>i. (G ^^ i) P0) [0..<Suc (nat N)]) \<and>
      length (map (\<lambda>i. (G ^^ i) P0) [0..<Suc (nat N)]) = nat N + 1) \<and>
   (0 \<le> N \<and> j < nat N \<and> (\<forall>i < j. call check ((G ^^ i) P0) = Inr (F ((G ^^ i) P0))) \<and>
      call check ((G ^^ j) P0) = Inl e \<longrightarrow> orbit call nrm P (Single N) check dn = Inl e)"
    using 1 2 3 4 5 by (intro conjI)
  then show ?thesis unfolding G_def P0_def .
qed

text \<open>
  The theorem at the map \<open>[x^3, x*y^2]\<close> and the points of its docstring: the orbit of
  \<open>(2 : 1)\<close> without and with normalization, the refused bounds, and the exception at
  \<open>(0 : 1)\<close>.
\<close>

theorem orbit_bounds_and_list_witness:
  "orbit cube_map id (2, 1) (Single 3) True False
     = Inr [(2, 1), (8, 2), (512, 32), (134217728, 524288)] \<and>
   orbit cube_map normalize_gcd (2, 1) (Single 3) True True
     = Inr [(2, 1), (4, 1), (16, 1), (256, 1)] \<and>
   orbit cube_map id (2, 1) (Bounds (- 1) 4) True False = Inl TypeError \<and>
   orbit cube_map id (2, 1) (Bounds 4 2) True False = Inr [] \<and>
   orbit cube_map id (0, 1) (Single 3) True False = Inl ValueError"
proof -
  let ?F = "\<lambda>Q :: int \<times> int. (fst Q ^ 3, fst Q * snd Q ^ 2)"
  let ?G = "\<lambda>Q. normalize_gcd (?F Q)"
  have three: "nat 3 = Suc (Suc (Suc 0))" by simp
  have g: "normalize_gcd (2, 1) = (2, 1)" "normalize_gcd (8, 2) = (4, 1)"
    "normalize_gcd (64, 4) = (16, 1)" "normalize_gcd (4096, 16) = (256, 1)"
    by (simp_all add: normalize_gcd_def)
  have run: "\<forall>i < nat 3. cube_map True ((?F ^^ i) (2, 1)) = Inr (?F ((?F ^^ i) (2, 1)))"
    unfolding three by (simp add: All_less_Suc cube_map_def)
  have runn: "\<forall>i < nat 3. cube_map True ((?G ^^ i) (normalize_gcd (2, 1)))
      = Inr (?F ((?G ^^ i) (normalize_gcd (2, 1))))"
    unfolding three by (simp add: All_less_Suc g) (simp add: cube_map_def)
  have stop: "cube_map True ((?F ^^ 0) (0, 1)) = Inl ValueError"
    by (simp add: cube_map_def)
  have "orbit cube_map id (2, 1) (Single 3) True False
          = Inr (map (\<lambda>i. (?F ^^ i) (2, 1)) [0..<Suc (nat 3)])"
    using orbit_bounds_and_list[where N = 3 and call = cube_map and check = True
        and F = ?F and P = "(2, 1)" and nrm = id and dn = False] run by simp
  moreover have "map (\<lambda>i. (?F ^^ i) (2, 1)) [0..<Suc (nat 3)]
          = [(2, 1), (8, 2), (512, 32), (134217728, 524288)]"
    unfolding three by (simp add: upt_rec)
  moreover have "orbit cube_map normalize_gcd (2, 1) (Single 3) True True
          = Inr (map (\<lambda>i. (?G ^^ i) (normalize_gcd (2, 1))) [0..<Suc (nat 3)])"
    using orbit_bounds_and_list[where N = 3 and call = cube_map and check = True
        and F = ?F and P = "(2, 1)" and nrm = normalize_gcd and dn = True] runn by simp
  moreover have "map (\<lambda>i. (?G ^^ i) (normalize_gcd (2, 1))) [0..<Suc (nat 3)]
          = [(2, 1), (4, 1), (16, 1), (256, 1)]"
    unfolding three by (simp add: upt_rec g)
  moreover have "orbit cube_map id (2, 1) (Bounds (- 1) 4) True False = Inl TypeError"
    using orbit_bounds_and_list[where m = "- 1" and k = 4 and call = cube_map and nrm = id
        and dn = False] by simp
  moreover have "orbit cube_map id (2, 1) (Bounds 4 2) True False = Inr []"
    using orbit_bounds_and_list[where m = 4 and k = 2 and call = cube_map and nrm = id
        and dn = False] by simp
  moreover have "orbit cube_map id (0, 1) (Single 3) True False = Inl ValueError"
    using orbit_bounds_and_list[where N = 3 and j = 0 and call = cube_map and check = True
        and F = ?F and P = "(0, 1)" and nrm = id and e = ValueError and dn = False] stop by simp
  ultimately show ?thesis by simp
qed

text \<open>
  Claim C10 as it is stated fails: for the map \<open>[x^3, x*y^2]\<close> and the point \<open>(0 : 1)\<close>
  of the docstring, \<open>orbit(P, 3)\<close> raises \<open>ValueError\<close> and returns no list.
\<close>

theorem orbit_list_counterexample:
  "orbit cube_map id (0, 1) (Single 3) True False = Inl ValueError"
  by (simp add: orbit_def cube_map_def numeral_3_eq_3)

section \<open>Properties of possible_periods\<close>

lemma is_prime_iff:
  "is_prime n \<longleftrightarrow> 2 \<le> n \<and> (\<forall>d. d dvd n \<longrightarrow> d = 1 \<or> d = n)"
proof
  assume p: "is_prime n"
  then have n2: "2 \<le> n" and nd: "\<And>d. 2 \<le> d \<Longrightarrow> d < n \<Longrightarrow> \<not> d dvd n"
    by (auto simp: is_prime_def list_all_iff)
  have "d = 1 \<or> d = n" if "d dvd n" for d
  proof -
    have "d \<le> n" using that n2 dvd_imp_le[of d n] by auto
    moreover have "d \<noteq> 0" using that n2 by (auto intro!: Nat.gr0I)
    ultimately show ?thesis using nd[of d] that by (cases "d = 1"; cases "d = n") auto
  qed
  then show "2 \<le> n \<and> (\<forall>d. d dvd n \<longrightarrow> d = 1 \<or> d = n)" using n2 by blast
next
  assume "2 \<le> n \<and> (\<forall>d. d dvd n \<longrightarrow> d = 1 \<or> d = n)"
  then show "is_prime n" by (auto simp: is_prime_def list_all_iff)
qed


lemma sorted_primes: "sorted (primes start stop) \<and> distinct (primes start stop)"
  by (simp add: primes_def sorted_filter[where f = id, simplified])

























section \<open>Properties of the dictionary and of cyclegraph\<close>

lemma eq_distinct_snoc:
  "eq_distinct eq (xs @ [y]) \<longleftrightarrow> eq_distinct eq xs \<and> (\<forall>x \<in> set xs. \<not> eq x y)"
  by (induction xs) (auto simp: list_all_iff)

lemma dict_update_fresh:
  "(\<forall>kv \<in> set d. \<not> eq (fst kv) k) \<Longrightarrow> dict_update eq k v d = d @ [(k, v)]"
  by (induction d) auto

lemma fold_dict_update_distinct:
  "eq_distinct eq (map fst kvs) \<Longrightarrow> fold (\<lambda>(k, v) d. dict_update eq k v d) kvs [] = kvs"
proof (induction kvs rule: rev_induct)
  case Nil
  then show ?case by simp
next
  case (snoc kv kvs)
  then have d: "eq_distinct eq (map fst kvs)" and f: "\<forall>x \<in> set kvs. \<not> eq (fst x) (fst kv)"
    by (auto simp: eq_distinct_snoc)
  show ?case using snoc.IH[OF d] dict_update_fresh[of kvs eq "fst kv" "snd kv"] f
    by (simp add: case_prod_beta)
qed

lemma dict_zip_distinct:
  "eq_distinct eq V \<Longrightarrow> length V = length E \<Longrightarrow> dict_zip eq V E = zip V E"
  unfolding dict_zip_def by (rule fold_dict_update_distinct) simp

lemma cyclegraph_space_Inr:
  "cyclegraph_space ev nrm pts (V, E) = Inr (V', E') \<Longrightarrow>
   V' = V @ pts \<and> E' = E @ map (out_list ev nrm) pts"
proof (induction pts arbitrary: V E)
  case Nil
  then show ?case by simp
next
  case (Cons P pts)
  show ?case
  proof (cases "ev True P")
    case (Inr Q)
    then show ?thesis using Cons.IH[of "V @ [P]" "E @ [[nrm Q]]"] Cons.prems
      by (simp add: out_list_def)
  next
    case (Inl e)
    then show ?thesis using Cons.IH[of "V @ [P]" "E @ [[]]"] Cons.prems
      by (cases e) (simp_all add: out_list_def)
  qed
qed

lemma cyclegraph_space_not_ValueError:
  "cyclegraph_space ev nrm pts (V, E) \<noteq> Inl ValueError"
proof (induction pts arbitrary: V E)
  case Nil
  then show ?case by simp
next
  case (Cons P pts)
  show ?case
  proof (cases "ev True P")
    case (Inr Q)
    then show ?thesis using Cons.IH by simp
  next
    case (Inl e)
    then show ?thesis using Cons.IH by (cases e) simp_all
  qed
qed

lemma cyclegraph_subscheme_not_ValueError:
  "cyclegraph_subscheme ev nrm on_X pts (V, E) \<noteq> Inl ValueError"
proof (induction pts arbitrary: V E)
  case Nil
  then show ?case by simp
next
  case (Cons P pts)
  show ?case
  proof (cases "ev True P")
    case (Inr Q)
    then show ?thesis using Cons.IH by simp
  next
    case (Inl e)
    then show ?thesis using Cons.IH by (cases e) simp_all
  qed
qed

lemma cyclegraph_space_returns:
  "(\<forall>P \<in> set pts. \<forall>e. ev True P = Inl e \<longrightarrow> e = ValueError) \<Longrightarrow>
   \<exists>r. cyclegraph_space ev nrm pts (V, E) = Inr r"
proof (induction pts arbitrary: V E)
  case Nil
  then show ?case by simp
next
  case (Cons P pts)
  show ?case
  proof (cases "ev True P")
    case (Inr Q)
    then show ?thesis using Cons.IH Cons.prems by simp
  next
    case (Inl e)
    then have "e = ValueError" using Cons.prems by simp
    then show ?thesis using Inl Cons.IH Cons.prems by simp
  qed
qed

lemma add_vertex_covers:
  "\<exists>u \<in> set (add_vertex eq v us). u = v \<or> eq u v"
  by (induction us) auto

lemma add_vertex_keeps: "set us \<subseteq> set (add_vertex eq v us)"
  by (induction us) auto

lemma fold_add_vertex_keeps: "set us \<subseteq> set (fold (add_vertex eq) xs us)"
proof (induction xs arbitrary: us)
  case Nil
  then show ?case by simp
next
  case (Cons x xs)
  show ?case using Cons.IH[of "add_vertex eq x us"] add_vertex_keeps[of us eq x] by auto
qed

lemma fold_add_vertex_covers:
  "x \<in> set xs \<Longrightarrow> \<exists>u \<in> set (fold (add_vertex eq) xs us). u = x \<or> eq u x"
proof (induction xs arbitrary: us)
  case Nil
  then show ?case by simp
next
  case (Cons y xs)
  show ?case
  proof (cases "x = y")
    case True
    obtain u where "u \<in> set (add_vertex eq y us)" "u = y \<or> eq u y"
      using add_vertex_covers[of eq y us] by blast
    then show ?thesis using True fold_add_vertex_keeps[of "add_vertex eq y us" eq xs] by auto
  next
    case False
    then show ?thesis using Cons by simp
  qed
qed

lemma arcs_zip:
  "concat (map (\<lambda>(u, vs). map (Pair u) vs) (zip pts (map (out_list ev nrm) pts)))
   = concat (map (\<lambda>P. case ev True P of Inr Q \<Rightarrow> [(P, nrm Q)] | Inl e \<Rightarrow> []) pts)"
  by (induction pts) (auto simp: out_list_def split: sum.splits)

lemma cyclegraph_subscheme_as_space:
  "(\<forall>P \<in> set (filter on_X pts). ev True P \<noteq> Inl TypeError) \<Longrightarrow>
   cyclegraph_subscheme ev nrm on_X pts (V, E) = cyclegraph_space ev nrm (filter on_X pts) (V, E)"
proof (induction pts arbitrary: V E)
  case Nil
  then show ?case by simp
next
  case (Cons P pts)
  show ?case
  proof (cases "on_X P")
    case False
    then show ?thesis using Cons by simp
  next
    case True
    show ?thesis
    proof (cases "ev True P")
      case (Inr Q)
      then show ?thesis using True Cons by simp
    next
      case (Inl e)
      then have "e \<noteq> TypeError" using True Cons.prems by auto
      then show ?thesis using Inl True Cons by (cases e) simp_all
    qed
  qed
qed

lemma cyclegraph_domain_points:
  "(\<forall>P \<in> set (domain_points X). ev True P \<noteq> Inl TypeError) \<Longrightarrow>
   cyclegraph ev nrm eq X =
     (case cyclegraph_space ev nrm (domain_points X) ([], []) of
        Inl e \<Rightarrow> Inl e
      | Inr (V, E) \<Rightarrow> Inr (DiGraph eq (dict_zip eq V E)))"
  by (cases X) (simp_all add: cyclegraph_def domain_points_def cyclegraph_subscheme_as_space)

text \<open>
  Claim C8, as the code has it. \<open>cyclegraph\<close> never raises \<open>ValueError\<close>: the
  exception of a point of indeterminacy is caught. When the points of the domain are
  pairwise different and the evaluation raises nothing else, \<open>cyclegraph\<close> returns a
  digraph; its arcs are the pairs (point, normalized image) of the points of the domain
  where the evaluation succeeds, every point of the domain is a vertex, and a point of
  indeterminacy has no outgoing arc.
\<close>

theorem cyclegraph_indeterminacy_no_arc:
  "cyclegraph ev nrm eq X \<noteq> Inl ValueError \<and>
   ((\<forall>P \<in> set (domain_points X). \<forall>e. ev True P = Inl e \<longrightarrow> e = ValueError) \<and>
    eq_distinct eq (domain_points X) \<longrightarrow>
      (\<exists>g. cyclegraph ev nrm eq X = Inr g \<and>
           arcs g = concat (map (\<lambda>P. case ev True P of Inr Q \<Rightarrow> [(P, nrm Q)] | Inl e \<Rightarrow> [])
                              (domain_points X)) \<and>
           (\<forall>P \<in> set (domain_points X). \<exists>v \<in> set (vertices g). v = P \<or> eq v P) \<and>
           (\<forall>P \<in> set (domain_points X). ev True P = Inl ValueError \<longrightarrow>
              (\<forall>a \<in> set (arcs g). fst a \<noteq> P))))"
proof (rule conjI)
  show "cyclegraph ev nrm eq X \<noteq> Inl ValueError"
    using cyclegraph_space_not_ValueError[of ev nrm _ "[]" "[]"]
      cyclegraph_subscheme_not_ValueError[of ev nrm _ _ "[]" "[]"]
    by (auto simp: cyclegraph_def split: ds_domain.splits sum.splits)
next
  let ?pts = "domain_points X"
  show "(\<forall>P \<in> set ?pts. \<forall>e. ev True P = Inl e \<longrightarrow> e = ValueError) \<and> eq_distinct eq ?pts \<longrightarrow>
      (\<exists>g. cyclegraph ev nrm eq X = Inr g \<and>
           arcs g = concat (map (\<lambda>P. case ev True P of Inr Q \<Rightarrow> [(P, nrm Q)] | Inl e \<Rightarrow> []) ?pts) \<and>
           (\<forall>P \<in> set ?pts. \<exists>v \<in> set (vertices g). v = P \<or> eq v P) \<and>
           (\<forall>P \<in> set ?pts. ev True P = Inl ValueError \<longrightarrow> (\<forall>a \<in> set (arcs g). fst a \<noteq> P)))"
  proof (rule impI)
    assume a: "(\<forall>P \<in> set ?pts. \<forall>e. ev True P = Inl e \<longrightarrow> e = ValueError) \<and> eq_distinct eq ?pts"
    define pts where "pts = domain_points X"
    have a1: "\<forall>P \<in> set pts. \<forall>e. ev True P = Inl e \<longrightarrow> e = ValueError"
      and a2: "eq_distinct eq pts"
      using a unfolding pts_def by blast+
    have nt: "\<forall>P \<in> set (domain_points X). ev True P \<noteq> Inl TypeError"
      using a by fastforce
    obtain r where r: "cyclegraph_space ev nrm pts ([], []) = Inr r"
      using cyclegraph_space_returns[of pts ev nrm "[]" "[]"] a1 by blast
    have VE: "r = (pts, map (out_list ev nrm) pts)"
      using cyclegraph_space_Inr[of ev nrm pts "[]" "[]" "fst r" "snd r"] r by (cases r) simp
    let ?g = "DiGraph eq (zip pts (map (out_list ev nrm) pts))"
    have g: "cyclegraph ev nrm eq X = Inr ?g"
      unfolding cyclegraph_domain_points[of X ev nrm eq, OF nt] using r VE a2
      by (simp add: pts_def[symmetric] dict_zip_distinct)
    have ar: "arcs ?g = concat (map (\<lambda>P. case ev True P of Inr Q \<Rightarrow> [(P, nrm Q)] | Inl e \<Rightarrow> []) pts)"
      by (simp add: DiGraph_def arcs_zip)
    have vs: "\<exists>v \<in> set (vertices ?g). v = P \<or> eq v P" if "P \<in> set pts" for P
    proof -
      have "P \<in> set (concat (map (\<lambda>(u, vs). u # vs) (zip pts (map (out_list ev nrm) pts))))"
        using that by (auto simp: zip_map2 set_zip in_set_conv_nth intro!: bexI[of _ "(P, out_list ev nrm P)"])
      then show ?thesis unfolding DiGraph_def by (simp add: fold_add_vertex_covers)
    qed
    have na: "\<forall>a \<in> set (arcs ?g). fst a \<noteq> P" if "ev True P = Inl ValueError" for P
      unfolding ar using that by (auto split: sum.splits)
    have "\<exists>g. cyclegraph ev nrm eq X = Inr g \<and>
           arcs g = concat (map (\<lambda>P. case ev True P of Inr Q \<Rightarrow> [(P, nrm Q)] | Inl e \<Rightarrow> []) pts) \<and>
           (\<forall>P \<in> set pts. \<exists>v \<in> set (vertices g). v = P \<or> eq v P) \<and>
           (\<forall>P \<in> set pts. ev True P = Inl ValueError \<longrightarrow> (\<forall>a \<in> set (arcs g). fst a \<noteq> P))"
      using g ar vs na by blast
    then show "\<exists>g. cyclegraph ev nrm eq X = Inr g \<and>
           arcs g = concat (map (\<lambda>P. case ev True P of Inr Q \<Rightarrow> [(P, nrm Q)] | Inl e \<Rightarrow> []) ?pts) \<and>
           (\<forall>P \<in> set ?pts. \<exists>v \<in> set (vertices g). v = P \<or> eq v P) \<and>
           (\<forall>P \<in> set ?pts. ev True P = Inl ValueError \<longrightarrow> (\<forall>a \<in> set (arcs g). fst a \<noteq> P))"
      unfolding pts_def .
  qed
qed

text \<open>
  The theorem at the map \<open>[x^3, x*y^2]\<close> over \<open>GF(3)\<close>, whose point \<open>(0 : 1)\<close> is a
  point of indeterminacy: on the projective line, and on the subscheme \<open>x*(x - y) = 0\<close>
  with the points \<open>(0 : 1)\<close> and \<open>(1 : 1)\<close>.
\<close>

theorem cyclegraph_indeterminacy_no_arc_witness:
  "(\<exists>g. cyclegraph cube_map_mod3 normalize_mod3 (=) (ProjectiveSpace P1_GF3) = Inr g \<and>
        (\<forall>a \<in> set (arcs g). fst a \<noteq> (0, 1))) \<and>
   (\<exists>g. cyclegraph cube_map_mod3 normalize_mod3 (=)
           (Subscheme P1_GF3 (\<lambda>Q. fst Q * (fst Q - snd Q) mod 3 = 0)) = Inr g \<and>
        arcs g = [((1, 1), (1, 1))]) \<and>
   eq_distinct (=) P1_GF3 \<and> cube_map_mod3 True (0, 1) = Inl ValueError"
proof -
  let ?X = "Subscheme P1_GF3 (\<lambda>Q. fst Q * (fst Q - snd Q) mod 3 = 0)"
  have d1: "domain_points (ProjectiveSpace P1_GF3) = P1_GF3"
    by (simp add: domain_points_def)
  have d2: "domain_points ?X = [(0, 1), (1, 1)]"
    by (simp add: domain_points_def P1_GF3_def)
  have h1: "\<forall>P \<in> set P1_GF3. \<forall>e. cube_map_mod3 True P = Inl e \<longrightarrow> e = ValueError"
    by (simp add: P1_GF3_def cube_map_mod3_def)
  have h2: "eq_distinct (=) P1_GF3"
    by (simp add: P1_GF3_def)
  have h3: "cube_map_mod3 True (0, 1) = Inl ValueError"
    by (simp add: cube_map_mod3_def)
  have h4: "(0, 1) \<in> set P1_GF3"
    by (simp add: P1_GF3_def)
  have h5: "\<forall>P \<in> set [(0, 1), (1, 1)]. \<forall>e. cube_map_mod3 True P = Inl e \<longrightarrow> e = ValueError"
    by (simp add: cube_map_mod3_def)
  have h6: "eq_distinct (=) [(0, 1), (1, 1 :: int) :: int \<times> int]"
    by simp
  have h7: "concat (map (\<lambda>P. case cube_map_mod3 True P of Inr Q \<Rightarrow> [(P, normalize_mod3 Q)]
      | Inl e \<Rightarrow> []) [(0, 1), (1, 1)]) = [((1, 1), (1, 1))]"
    by (simp add: cube_map_mod3_def normalize_mod3_def)
  have a: "\<exists>g. cyclegraph cube_map_mod3 normalize_mod3 (=) (ProjectiveSpace P1_GF3) = Inr g \<and>
        (\<forall>a \<in> set (arcs g). fst a \<noteq> (0, 1))"
    using cyclegraph_indeterminacy_no_arc[where ev = cube_map_mod3 and nrm = normalize_mod3
        and eq = "(=)" and X = "ProjectiveSpace P1_GF3"] h1 h2 h3 h4 unfolding d1
    by blast
  have b: "\<exists>g. cyclegraph cube_map_mod3 normalize_mod3 (=) ?X = Inr g \<and>
        arcs g = [((1, 1), (1, 1))]"
    using cyclegraph_indeterminacy_no_arc[where ev = cube_map_mod3 and nrm = normalize_mod3
        and eq = "(=)" and X = ?X] h5 h6 unfolding d2 h7
    by blast
  show ?thesis by (intro conjI a b h2 h3)
qed

text \<open>
  Claim C8 as it is stated fails: the map \<open>[x^3, x*y^2]\<close> over \<open>GF(3)\<close> has the point
  of indeterminacy \<open>(0 : 1)\<close>, and \<open>cyclegraph\<close> raises nothing; it returns the digraph
  on the four points in which \<open>(0 : 1)\<close> has no outgoing arc.
\<close>

theorem cyclegraph_raises_counterexample:
  "cyclegraph cube_map_mod3 normalize_mod3 (=) (ProjectiveSpace P1_GF3)
   = Inr \<lparr> vertices = [(0, 1), (1, 1), (2, 1), (1, 0)],
           arcs = [((1, 1), (1, 1)), ((2, 1), (1, 1)), ((1, 0), (1, 0))] \<rparr> \<and>
   cube_map_mod3 True (0, 1) = Inl ValueError"
  by (simp add: cyclegraph_def P1_GF3_def cube_map_mod3_def normalize_mod3_def dict_zip_def DiGraph_def)

section \<open>Properties of _preperiodic_points_to_cyclegraph\<close>

lemma D_index_Some: "D_index eq D x = Some d \<Longrightarrow> d \<in> set D \<and> eq d x"
  by (induction D) (auto split: if_splits)

lemma D_index_None: "D_index eq D x = None \<longleftrightarrow> (\<forall>d \<in> set D. \<not> eq d x)"
  by (induction D) auto

lemma eq_distinct_inj:
  "eq_distinct eq D \<Longrightarrow> (\<And>a b. eq a b \<Longrightarrow> eq b a) \<Longrightarrow> x \<in> set D \<Longrightarrow> y \<in> set D \<Longrightarrow> eq x y \<Longrightarrow> x = y"
proof (induction D)
  case Nil
  then show ?case by simp
next
  case (Cons d D)
  show ?case
  proof (cases "x = d"; cases "y = d")
    assume "x = d" "y \<noteq> d"
    then show ?thesis using Cons.prems by (auto simp: list_all_iff)
  next
    assume "x \<noteq> d" "y = d"
    then have "eq d x" using Cons.prems by auto
    then show ?thesis using Cons.prems \<open>x \<noteq> d\<close> by (auto simp: list_all_iff)
  next
    assume "x \<noteq> d" "y \<noteq> d"
    then show ?thesis using Cons by auto
  qed simp
qed

lemma eq_distinct_distinct: "eq_distinct eq D \<Longrightarrow> (\<And>x. eq x x) \<Longrightarrow> distinct D"
  by (induction D) (auto simp: list_all_iff)

lemma preperiodic_loop_result:
  assumes refl: "\<And>x. eq x x"
    and ok: "\<forall>p \<in> set preper. \<exists>r. ev True p = Inr r"
  shows "\<exists>Vn En D'. preperiodic_loop ev nrm eq preper (V, E, D) = Inr (V @ Vn, E @ En, D') \<and>
           set D \<subseteq> set D' \<and> (eq_distinct eq D \<longrightarrow> eq_distinct eq D') \<and>
           length Vn = length preper \<and> length En = length preper \<and>
           list_all2 (\<lambda>p ve. fst ve \<in> set D' \<and> eq (fst ve) p \<and>
                        (\<exists>w. snd ve = [w] \<and> w \<in> set D' \<and> eq w (image_of ev nrm p)))
                     preper (zip Vn En)"
  using ok
proof (induction preper arbitrary: V E D)
  case Nil
  then show ?case by simp
next
  case (Cons val preper)
  obtain r where r: "ev True val = Inr r" using Cons.prems by auto
  define v where "v = (case D_index eq D val of Some d \<Rightarrow> d | None \<Rightarrow> val)"
  define D1 where "D1 = (case D_index eq D val of Some d \<Rightarrow> D | None \<Rightarrow> D @ [val])"
  define Q where "Q = nrm r"
  define w where "w = (case D_index eq D1 Q of Some d \<Rightarrow> d | None \<Rightarrow> Q)"
  define D2 where "D2 = (case D_index eq D1 Q of Some d \<Rightarrow> D1 | None \<Rightarrow> D1 @ [Q])"
  have step: "preperiodic_loop ev nrm eq (val # preper) (V, E, D)
      = preperiodic_loop ev nrm eq preper (V @ [v], E @ [[w]], D2)"
    using r by (simp add: v_def D1_def Q_def w_def D2_def Let_def split: option.splits)
  have v: "v \<in> set D1" "eq v val"
    using refl D_index_Some[of eq D val] by (auto simp: v_def D1_def split: option.splits)
  have w: "w \<in> set D2" "eq w Q"
    using refl D_index_Some[of eq D1 Q] by (auto simp: w_def D2_def split: option.splits)
  have sub: "set D \<subseteq> set D1" "set D1 \<subseteq> set D2"
    by (auto simp: D1_def D2_def split: option.splits)
  have d1: "eq_distinct eq D \<Longrightarrow> eq_distinct eq D1"
    using D_index_None[of eq D val] by (auto simp: D1_def eq_distinct_snoc split: option.splits)
  have d2: "eq_distinct eq D1 \<Longrightarrow> eq_distinct eq D2"
    using D_index_None[of eq D1 Q] by (auto simp: D2_def eq_distinct_snoc split: option.splits)
  have img: "image_of ev nrm val = Q" using r by (simp add: image_of_def Q_def)
  obtain Vn En D' where ih:
    "preperiodic_loop ev nrm eq preper (V @ [v], E @ [[w]], D2) = Inr ((V @ [v]) @ Vn, (E @ [[w]]) @ En, D')"
    "set D2 \<subseteq> set D'" "eq_distinct eq D2 \<longrightarrow> eq_distinct eq D'"
    "length Vn = length preper" "length En = length preper"
    "list_all2 (\<lambda>p ve. fst ve \<in> set D' \<and> eq (fst ve) p \<and>
                        (\<exists>w. snd ve = [w] \<and> w \<in> set D' \<and> eq w (image_of ev nrm p)))
                     preper (zip Vn En)"
    using Cons.IH[of "V @ [v]" "E @ [[w]]" D2] Cons.prems by auto
  have "preperiodic_loop ev nrm eq (val # preper) (V, E, D) = Inr (V @ (v # Vn), E @ ([w] # En), D')"
    using step ih(1) by simp
  moreover have "set D \<subseteq> set D'" using sub ih(2) by blast
  moreover have "eq_distinct eq D \<longrightarrow> eq_distinct eq D'" using d1 d2 ih(3) by blast
  moreover have "length (v # Vn) = length (val # preper)" "length ([w] # En) = length (val # preper)"
    using ih(4,5) by simp_all
  moreover have "list_all2 (\<lambda>p ve. fst ve \<in> set D' \<and> eq (fst ve) p \<and>
                        (\<exists>w. snd ve = [w] \<and> w \<in> set D' \<and> eq w (image_of ev nrm p)))
                     (val # preper) (zip (v # Vn) ([w] # En))"
    using ih(6) v w sub ih(2) img by auto
  ultimately show ?case by blast
qed


lemma dict_update_map_fst:
  "map fst (dict_update eq k v d)
   = (if \<exists>k' \<in> set (map fst d). eq k' k then map fst d else map fst d @ [k])"
proof (induction d)
  case Nil
  then show ?case by simp
next
  case (Cons a d)
  show ?case
  proof (cases "eq (fst a) k")
    case True
    then show ?thesis by (cases a) auto
  next
    case False
    then show ?thesis using Cons.IH by (cases a) (simp split: if_splits)
  qed
qed

lemma dict_update_keys_kept: "fst ` set d \<subseteq> fst ` set (dict_update eq k v d)"
proof -
  have "set (map fst d) \<subseteq> set (map fst (dict_update eq k v d))"
    unfolding dict_update_map_fst by auto
  then show ?thesis by simp
qed

lemma dict_update_keys_distinct:
  "eq_distinct eq (map fst d) \<Longrightarrow> eq_distinct eq (map fst (dict_update eq k v d))"
  unfolding dict_update_map_fst by (auto simp: eq_distinct_snoc)

lemma dict_update_entry:
  "(k', v') \<in> set (dict_update eq k v d) \<Longrightarrow>
   (k', v') \<in> set d \<or> (v' = v \<and> (k' = k \<or> eq k' k))"
  by (induction d) (auto split: if_splits)

lemma dict_update_has_key:
  "\<exists>k' \<in> fst ` set (dict_update eq k v d). k' = k \<or> eq k' k"
proof -
  have "\<exists>k' \<in> set (map fst (dict_update eq k v d)). k' = k \<or> eq k' k"
    unfolding dict_update_map_fst by auto
  then show ?thesis by simp
qed

lemma dict_update_keys: "fst ` set (dict_update eq k v d) \<subseteq> insert k (fst ` set d)"
proof -
  have "set (map fst (dict_update eq k v d)) \<subseteq> insert k (set (map fst d))"
    unfolding dict_update_map_fst by auto
  then show ?thesis by simp
qed

lemma dict_fold_properties:
  "eq_distinct eq (map fst (fold (\<lambda>(k, v) d. dict_update eq k v d) kvs [])) \<and>
   (\<forall>kv' \<in> set (fold (\<lambda>(k, v) d. dict_update eq k v d) kvs []).
      \<exists>kv \<in> set kvs. snd kv' = snd kv \<and> (fst kv' = fst kv \<or> eq (fst kv') (fst kv))) \<and>
   (\<forall>kv \<in> set kvs. \<exists>k' \<in> fst ` set (fold (\<lambda>(k, v) d. dict_update eq k v d) kvs []).
      k' = fst kv \<or> eq k' (fst kv)) \<and>
   fst ` set (fold (\<lambda>(k, v) d. dict_update eq k v d) kvs []) \<subseteq> fst ` set kvs"
proof (induction kvs rule: rev_induct)
  case Nil
  then show ?case by simp
next
  case (snoc kv kvs)
  let ?d = "fold (\<lambda>(k, v) d. dict_update eq k v d) kvs []"
  have f: "fold (\<lambda>(k, v) d. dict_update eq k v d) (kvs @ [kv]) [] = dict_update eq (fst kv) (snd kv) ?d"
    by (simp add: case_prod_beta)
  have 1: "eq_distinct eq (map fst (dict_update eq (fst kv) (snd kv) ?d))"
    using snoc.IH by (intro dict_update_keys_distinct) simp
  have 2: "\<exists>x \<in> set (kvs @ [kv]). snd kv' = snd x \<and> (fst kv' = fst x \<or> eq (fst kv') (fst x))"
    if "kv' \<in> set (dict_update eq (fst kv) (snd kv) ?d)" for kv'
    using dict_update_entry[of "fst kv'" "snd kv'" eq "fst kv" "snd kv" ?d] that snoc.IH
    by auto
  have 3: "\<exists>k' \<in> fst ` set (dict_update eq (fst kv) (snd kv) ?d). k' = fst x \<or> eq k' (fst x)"
    if "x \<in> set (kvs @ [kv])" for x
  proof (cases "x = kv")
    case True
    then show ?thesis using dict_update_has_key[of eq "fst kv" "snd kv" ?d] by simp
  next
    case False
    then have "x \<in> set kvs" using that by simp
    then obtain k' where "k' \<in> fst ` set ?d" "k' = fst x \<or> eq k' (fst x)"
      using snoc.IH by blast
    then show ?thesis using dict_update_keys_kept[of ?d eq "fst kv" "snd kv"] by blast
  qed
  have 4: "fst ` set (dict_update eq (fst kv) (snd kv) ?d) \<subseteq> fst ` set (kvs @ [kv])"
  proof -
    have "fst ` set ?d \<subseteq> fst ` set kvs" using snoc.IH by blast
    then have "insert (fst kv) (fst ` set ?d) \<subseteq> fst ` set (kvs @ [kv])" by auto
    then show ?thesis using dict_update_keys[of eq "fst kv" "snd kv" ?d] by blast
  qed
  show ?case unfolding f using 1 2 3 4 by blast
qed

lemma add_vertex_subset: "set (add_vertex eq v us) \<subseteq> insert v (set us)"
  by (induction us) auto

lemma add_vertex_distinct: "eq_distinct eq us \<Longrightarrow> eq_distinct eq (add_vertex eq v us)"
proof (induction us)
  case Nil
  then show ?case by simp
next
  case (Cons u us)
  show ?case
  proof (cases "eq u v")
    case True
    then show ?thesis using Cons.prems by simp
  next
    case False
    have "\<forall>y \<in> set (add_vertex eq v us). \<not> eq u y"
      using add_vertex_subset[of eq v us] False Cons.prems by (auto simp: list_all_iff)
    then show ?thesis using False Cons by (auto simp: list_all_iff)
  qed
qed

lemma fold_add_vertex_subset: "set (fold (add_vertex eq) xs us) \<subseteq> set xs \<union> set us"
proof (induction xs arbitrary: us)
  case Nil
  then show ?case by simp
next
  case (Cons x xs)
  show ?case using Cons.IH[of "add_vertex eq x us"] add_vertex_subset[of eq x us] by auto
qed

lemma fold_add_vertex_distinct:
  "eq_distinct eq us \<Longrightarrow> eq_distinct eq (fold (add_vertex eq) xs us)"
  by (induction xs arbitrary: us) (simp_all add: add_vertex_distinct)

lemma filter_key_unique:
  "distinct (map fst d) \<Longrightarrow> (v, x) \<in> set d \<Longrightarrow> filter (\<lambda>a. fst a = v) d = [(v, x)]"
proof (induction d)
  case Nil
  then show ?case by simp
next
  case (Cons a d)
  show ?case
  proof (cases "a = (v, x)")
    case True
    then have "v \<notin> fst ` set d" using Cons.prems by auto
    then have "\<forall>b \<in> set d. fst b \<noteq> v" by auto
    then have "filter (\<lambda>a. fst a = v) d = []" by (simp add: filter_empty_conv)
    then show ?thesis using True by simp
  next
    case False
    then have in_d: "(v, x) \<in> set d" using Cons.prems by simp
    then have "v \<in> fst ` set d" by force
    then have "fst a \<noteq> v" using Cons.prems by auto
    then show ?thesis using Cons.IH in_d Cons.prems by simp
  qed
qed

lemma list_all2_right: "list_all2 R xs ys \<Longrightarrow> y \<in> set ys \<Longrightarrow> \<exists>x \<in> set xs. R x y"
  by (metis in_set_conv_nth list_all2_conv_all_nth)

lemma list_all2_left: "list_all2 R xs ys \<Longrightarrow> x \<in> set xs \<Longrightarrow> \<exists>y \<in> set ys. R x y"
  by (metis in_set_conv_nth list_all2_conv_all_nth)


lemma in_concat_entries:
  "kv \<in> set d \<Longrightarrow> x \<in> set (fst kv # snd kv) \<Longrightarrow> x \<in> set (concat (map (\<lambda>(u, vs). u # vs) d))"
  by (induction d) (auto simp: case_prod_beta)

lemma concat_entries_cases:
  "x \<in> set (concat (map (\<lambda>(u, vs). u # vs) d)) \<Longrightarrow> \<exists>kv \<in> set d. x = fst kv \<or> x \<in> set (snd kv)"
  by (induction d) (auto simp: case_prod_beta)

text \<open>
  Claim C9. Let \<open>==\<close> be an equivalence relation on points that the map respects
  (equal points have equal normalized images), and let the list of points be complete:
  the evaluation succeeds at every listed point and its normalized image is equal to a
  listed point. Then the graph is built, no two of its vertices are equal, every
  listed point is equal to a vertex and every vertex to a listed point, and every
  vertex has exactly one outgoing arc; the arc ends in a vertex that is equal to the
  normalized image of its start (the start itself for a fixed point).
\<close>

theorem preperiodic_graph_one_vertex_per_class:
  assumes reflE: "\<forall>x. eq x x"
    and symE: "\<forall>x y. eq x y \<longrightarrow> eq y x"
    and transE: "\<forall>x y z. eq x y \<and> eq y z \<longrightarrow> eq x z"
    and resp: "\<forall>x y r. eq x y \<and> ev True x = Inr r \<longrightarrow> (\<exists>s. ev True y = Inr s \<and> eq (nrm r) (nrm s))"
    and complete: "\<forall>p \<in> set preper. \<exists>r. ev True p = Inr r \<and> (\<exists>q \<in> set preper. eq (nrm r) q)"
  shows "\<exists>g. preperiodic_points_to_cyclegraph ev nrm eq preper = Inr g \<and>
           eq_distinct eq (vertices g) \<and>
           (\<forall>p \<in> set preper. \<exists>v \<in> set (vertices g). eq v p) \<and>
           (\<forall>v \<in> set (vertices g). \<exists>p \<in> set preper. eq v p) \<and>
           (\<forall>v \<in> set (vertices g). \<exists>w r. filter (\<lambda>a. eq (fst a) v) (arcs g) = [(v, w)] \<and>
               w \<in> set (vertices g) \<and> ev True v = Inr r \<and> eq w (nrm r))"
proof -
  let ?R = "\<lambda>D' p ve. fst ve \<in> set D' \<and> eq (fst ve) p \<and>
              (\<exists>w. snd ve = [w] \<and> w \<in> set D' \<and> eq w (image_of ev nrm p))"
  have reflD: "\<And>a. eq a a" using reflE by blast
  have symD: "\<And>a b. eq a b \<Longrightarrow> eq b a" using symE by blast
  have transD: "\<And>a b c. eq a b \<Longrightarrow> eq b c \<Longrightarrow> eq a c" using transE by blast
  have ok: "\<forall>p \<in> set preper. \<exists>r. ev True p = Inr r" using complete by blast
  obtain V E D where loop: "preperiodic_loop ev nrm eq preper ([], [], []) = Inr (V, E, D)"
    and dD: "eq_distinct eq D"
    and R: "list_all2 (?R D) preper (zip V E)"
    using preperiodic_loop_result[of eq preper ev nrm "[]" "[]" "[]"] reflD ok by auto
  have inj: "x = y" if "x \<in> set D" "y \<in> set D" "eq x y" for x y
    using eq_distinct_inj[OF dD symD that] .
  define d where "d = dict_zip eq V E"
  define xs where "xs = concat (map (\<lambda>(u, vs). u # vs) d)"
  define g where "g = DiGraph eq d"
  have res: "preperiodic_points_to_cyclegraph ev nrm eq preper = Inr g"
    using loop by (simp add: preperiodic_points_to_cyclegraph_def g_def d_def)
  have vg: "vertices g = fold (add_vertex eq) xs []"
    and ag: "arcs g = concat (map (\<lambda>(u, vs). map (Pair u) vs) d)"
    by (simp_all add: g_def DiGraph_def xs_def)
  have dprops:
    "eq_distinct eq (map fst d)"
    "\<forall>kv' \<in> set d. \<exists>kv \<in> set (zip V E). snd kv' = snd kv \<and> (fst kv' = fst kv \<or> eq (fst kv') (fst kv))"
    "\<forall>kv \<in> set (zip V E). \<exists>k' \<in> fst ` set d. k' = fst kv \<or> eq k' (fst kv)"
    "fst ` set d \<subseteq> fst ` set (zip V E)"
    using dict_fold_properties[of eq "zip V E"] by (simp_all add: d_def dict_zip_def)
  have zipD: "fst kv \<in> set D" if "kv \<in> set (zip V E)" for kv
    using list_all2_right[OF R that] by blast
  have keyD: "fst kv' \<in> set D" if "kv' \<in> set d" for kv'
  proof -
    have "fst kv' \<in> fst ` set (zip V E)" using dprops(4) that by blast
    then show ?thesis using zipD by auto
  qed
  \<comment> \<open>every entry of the dictionary belongs to a listed point\<close>
  have entry: "\<exists>p \<in> set preper. \<exists>w. eq (fst kv') p \<and> snd kv' = [w] \<and> w \<in> set D
                 \<and> eq w (image_of ev nrm p)" if "kv' \<in> set d" for kv'
  proof -
    have "\<exists>kv \<in> set (zip V E). snd kv' = snd kv \<and> (fst kv' = fst kv \<or> eq (fst kv') (fst kv))"
      using dprops(2) that by (rule bspec)
    then obtain kv where kv: "kv \<in> set (zip V E)" "snd kv' = snd kv" "fst kv' = fst kv \<or> eq (fst kv') (fst kv)"
      by (elim bexE conjE)
    obtain p where p: "p \<in> set preper" "?R D p kv"
      using list_all2_right[OF R kv(1)] by blast
    have e1: "eq (fst kv) p" using p(2) by simp
    have "eq (fst kv') p"
    proof (cases "fst kv' = fst kv")
      case True
      then show ?thesis using e1 by simp
    next
      case False
      then have "eq (fst kv') (fst kv)" using kv(3) by simp
      then show ?thesis using e1 by (rule transD)
    qed
    moreover obtain w where "snd kv = [w]" "w \<in> set D" "eq w (image_of ev nrm p)"
      using p(2) by blast
    ultimately show ?thesis using p(1) kv(2) by auto
  qed
  \<comment> \<open>every listed point has its key\<close>
  have has_key: "\<exists>kv' \<in> set d. eq (fst kv') p" if pin: "p \<in> set preper" for p
  proof -
    obtain kv where kv: "kv \<in> set (zip V E)" "?R D p kv"
      using list_all2_left[OF R pin] by blast
    have "\<exists>k' \<in> fst ` set d. k' = fst kv \<or> eq k' (fst kv)"
      using dprops(3) kv(1) by (rule bspec)
    then obtain k' where k': "k' \<in> fst ` set d" "k' = fst kv \<or> eq k' (fst kv)"
      by (elim bexE)
    have e1: "eq (fst kv) p" using kv(2) by simp
    have "eq k' p"
    proof (cases "k' = fst kv")
      case True
      then show ?thesis using e1 by simp
    next
      case False
      then have "eq k' (fst kv)" using k'(2) by simp
      then show ?thesis using e1 by (rule transD)
    qed
    then show ?thesis using k'(1) by auto
  qed
  have xsD: "set xs \<subseteq> set D"
  proof
    fix x assume "x \<in> set xs"
    then have "\<exists>kv \<in> set d. x = fst kv \<or> x \<in> set (snd kv)"
      unfolding xs_def by (rule concat_entries_cases)
    then obtain kv' where kv': "kv' \<in> set d" "x = fst kv' \<or> x \<in> set (snd kv')"
      by (elim bexE)
    then show "x \<in> set D" using keyD[OF kv'(1)] entry[OF kv'(1)] by auto
  qed
  have vsub: "set (vertices g) \<subseteq> set xs"
    using fold_add_vertex_subset[of eq xs "[]"] by (simp add: vg)
  have vall: "set xs \<subseteq> set (vertices g)"
  proof
    fix x assume x: "x \<in> set xs"
    then obtain u where u: "u \<in> set (vertices g)" "u = x \<or> eq u x"
      using fold_add_vertex_covers[of x xs eq "[]"] by (auto simp: vg)
    then have "u = x" using inj[of u x] vsub xsD x by auto
    then show "x \<in> set (vertices g)" using u by simp
  qed
  \<comment> \<open>the out-neighbour of an entry is the key of some entry\<close>
  have target_key: "\<exists>kv \<in> set d. fst kv = w" if kin: "kv' \<in> set d" and sw: "snd kv' = [w]" for kv' w
  proof -
    obtain p where p: "p \<in> set preper" "w \<in> set D" "eq w (image_of ev nrm p)"
      using entry[OF kin] sw by auto
    obtain r q where q: "ev True p = Inr r" "q \<in> set preper" "eq (nrm r) q"
      using complete p(1) by blast
    have "eq w q" using p(3) q by (auto simp: image_of_def intro: transD)
    moreover obtain kv where kv: "kv \<in> set d" "eq (fst kv) q" using has_key[OF q(2)] by blast
    ultimately have "eq (fst kv) w" using symD transD by blast
    then have "fst kv = w" using inj[OF keyD[OF kv(1)] p(2)] by simp
    then show ?thesis using kv(1) by blast
  qed
  have vkey: "\<exists>kv \<in> set d. fst kv = v" if "v \<in> set (vertices g)" for v
  proof -
    have "v \<in> set xs" using vsub that by blast
    then have "\<exists>kv \<in> set d. v = fst kv \<or> v \<in> set (snd kv)"
      unfolding xs_def by (rule concat_entries_cases)
    then obtain kv' where kv': "kv' \<in> set d" "v = fst kv' \<or> v \<in> set (snd kv')"
      by (elim bexE)
    show ?thesis
    proof (cases "v = fst kv'")
      case True
      then show ?thesis using kv'(1) by auto
    next
      case False
      then have "v \<in> set (snd kv')" using kv'(2) by simp
      moreover obtain w where "snd kv' = [w]" using entry[OF kv'(1)] by blast
      ultimately show ?thesis using target_key[OF kv'(1), of w] by simp
    qed
  qed
  have c1: "eq_distinct eq (vertices g)"
    by (simp add: vg fold_add_vertex_distinct)
  have c2: "\<exists>v \<in> set (vertices g). eq v p" if pin: "p \<in> set preper" for p
  proof -
    from has_key[OF pin] obtain kv' where kv': "kv' \<in> set d" "eq (fst kv') p"
      by (elim bexE)
    have "fst kv' \<in> set xs" unfolding xs_def using kv'(1) by (rule in_concat_entries) simp
    then have "fst kv' \<in> set (vertices g)" using vall by (rule subsetD[rotated])
    then show ?thesis using kv'(2) by (rule bexI[rotated])
  qed
  have c3: "\<exists>p \<in> set preper. eq v p" if vin: "v \<in> set (vertices g)" for v
  proof -
    from vkey[OF vin] obtain kv where kv: "kv \<in> set d" "fst kv = v"
      by (elim bexE)
    from entry[OF kv(1)] obtain p where "p \<in> set preper" "eq (fst kv) p"
      by (elim bexE exE conjE)
    then show ?thesis using kv(2) by auto
  qed
  have single: "\<exists>w. snd kv = [w]" if kin: "kv \<in> set d" for kv
  proof -
    from entry[OF kin] obtain w where "snd kv = [w]"
      by (elim bexE exE conjE)
    then show ?thesis by (rule exI)
  qed
  have arcs_eq: "arcs g = map (\<lambda>kv. (fst kv, hd (snd kv))) d"
  proof -
    have one: "(case kv of (u, vs) \<Rightarrow> map (Pair u) vs) = [(fst kv, hd (snd kv))]"
      if kin: "kv \<in> set d" for kv
    proof -
      from single[OF kin] obtain w where w: "snd kv = [w]" by (elim exE)
      show ?thesis using w by (simp add: case_prod_beta)
    qed
    have "map (\<lambda>(u, vs). map (Pair u) vs) d = map (\<lambda>kv. [(fst kv, hd (snd kv))]) d"
      by (rule map_cong[OF refl]) (rule one)
    then have "arcs g = concat (map (\<lambda>kv. [(fst kv, hd (snd kv))]) d)"
      unfolding ag by (rule arg_cong)
    also have "\<dots> = map (\<lambda>kv. (fst kv, hd (snd kv))) d"
      by (induction d) simp_all
    finally show ?thesis .
  qed
  have dist: "distinct (map fst d)"
    using eq_distinct_distinct[OF dprops(1) reflD] .
  have c4: "\<exists>w r. filter (\<lambda>a. eq (fst a) v) (arcs g) = [(v, w)] \<and>
               w \<in> set (vertices g) \<and> ev True v = Inr r \<and> eq w (nrm r)" if vin: "v \<in> set (vertices g)" for v
  proof -
    from vkey[OF vin] obtain kv where kv: "kv \<in> set d" "fst kv = v"
      by (elim bexE)
    from entry[OF kv(1)] obtain p w where p: "p \<in> set preper" "eq (fst kv) p" "snd kv = [w]"
        "w \<in> set D" "eq w (image_of ev nrm p)"
      by (elim bexE exE conjE)
    have vD: "v \<in> set D" using keyD[OF kv(1)] kv(2) by simp
    have kvw: "kv = (v, [w])" using kv(2) p(3) by (cases kv) simp
    have same: "eq (fst a) v = (fst a = v)" if ain: "a \<in> set d" for a
      using inj[OF keyD[OF ain] vD] reflD by auto
    have "filter (\<lambda>a. eq (fst a) v) (arcs g)
            = map (\<lambda>kv. (fst kv, hd (snd kv))) (filter (\<lambda>a. eq (fst a) v) d)"
      unfolding arcs_eq by (simp add: filter_map comp_def)
    also have "filter (\<lambda>a. eq (fst a) v) d = filter (\<lambda>a. fst a = v) d"
      by (rule filter_cong[OF refl]) (rule same)
    also have "\<dots> = [(v, [w])]"
      using kv(1) unfolding kvw by (rule filter_key_unique[OF dist])
    finally have f: "filter (\<lambda>a. eq (fst a) v) (arcs g) = [(v, w)]" by simp
    have "w \<in> set xs" unfolding xs_def using kv(1) by (rule in_concat_entries) (simp add: p(3))
    then have wv: "w \<in> set (vertices g)" using vall by (rule subsetD[rotated])
    obtain rp where rp: "ev True p = Inr rp" using ok p(1) by blast
    have "eq p v" using p(2) kv(2) symD by simp
    then obtain s where s: "ev True v = Inr s" "eq (nrm rp) (nrm s)" using resp rp by blast
    have "eq w (nrm rp)" using p(5) rp by (simp add: image_of_def)
    then have "eq w (nrm s)" using s(2) by (rule transD)
    then show ?thesis using f wv s(1) by blast
  qed
  show ?thesis using res c1 c2 c3 c4 by blast
qed

text \<open>
  The theorem at the map \<open>[x^2 - 2*y^2, y^2]\<close> over \<open>GF(3)\<close> and a complete list of six
  points, two of which repeat a point in another representation: the graph has four
  vertices with one outgoing arc each.
\<close>

lemma normalize_mod3_residues: "normalize_mod3 Q = normalize_mod3 (fst Q mod 3, snd Q mod 3)"
  by (simp add: normalize_mod3_def mod_mult_eq)

lemma sq_map_mod3_residues: "sq_map_mod3 c Q = sq_map_mod3 c (fst Q mod 3, snd Q mod 3)"
  by (simp add: sq_map_mod3_def)

lemma sq_map_mod3_normalized_small:
  "a \<in> {0, 1, 2} \<Longrightarrow> b \<in> {0, 1, 2} \<Longrightarrow>
   (case sq_map_mod3 True (a, b) of
      Inl e \<Rightarrow> sq_map_mod3 True (normalize_mod3 (a, b)) = Inl e
    | Inr r \<Rightarrow> (\<exists>s. sq_map_mod3 True (normalize_mod3 (a, b)) = Inr s \<and> normalize_mod3 r = normalize_mod3 s))"
  by (auto simp: sq_map_mod3_def normalize_mod3_def)

lemma sq_map_mod3_normalized:
  "(case sq_map_mod3 True Q of
      Inl e \<Rightarrow> sq_map_mod3 True (normalize_mod3 Q) = Inl e
    | Inr r \<Rightarrow> (\<exists>s. sq_map_mod3 True (normalize_mod3 Q) = Inr s \<and> normalize_mod3 r = normalize_mod3 s))"
proof -
  have a: "fst Q mod 3 \<in> {0, 1, 2}" and b: "snd Q mod 3 \<in> {0, 1, 2}" by auto
  have e1: "sq_map_mod3 True (fst Q mod 3, snd Q mod 3) = sq_map_mod3 True Q"
    by (rule sq_map_mod3_residues[symmetric])
  have e2: "normalize_mod3 (fst Q mod 3, snd Q mod 3) = normalize_mod3 Q"
    by (rule normalize_mod3_residues[symmetric])
  show ?thesis
    using sq_map_mod3_normalized_small[OF a b] unfolding e1 e2 .
qed

lemma sq_map_mod3_respects:
  "\<forall>x y r. eq_mod3 x y \<and> sq_map_mod3 True x = Inr r \<longrightarrow>
     (\<exists>s. sq_map_mod3 True y = Inr s \<and> eq_mod3 (normalize_mod3 r) (normalize_mod3 s))"
proof (intro allI impI)
  fix x y r
  assume a: "eq_mod3 x y \<and> sq_map_mod3 True x = Inr r"
  then obtain s where s: "sq_map_mod3 True (normalize_mod3 x) = Inr s" "normalize_mod3 r = normalize_mod3 s"
    using sq_map_mod3_normalized[of x] by auto
  have "sq_map_mod3 True (normalize_mod3 y) = Inr s" using a s(1) by (simp add: eq_mod3_def)
  then obtain r' where "sq_map_mod3 True y = Inr r'" "normalize_mod3 r' = normalize_mod3 s"
    using sq_map_mod3_normalized[of y] by (cases "sq_map_mod3 True y") auto
  then show "\<exists>s. sq_map_mod3 True y = Inr s \<and> eq_mod3 (normalize_mod3 r) (normalize_mod3 s)"
    using s(2) by (simp add: eq_mod3_def)
qed

theorem preperiodic_graph_one_vertex_per_class_witness:
  "preperiodic_points_to_cyclegraph sq_map_mod3 normalize_mod3 eq_mod3 preper_mod3
     = Inr \<lparr> vertices = [(0, 1), (1, 1), (2, 1), (1, 0)],
             arcs = [((0, 1), (1, 1)), ((1, 1), (2, 1)), ((2, 1), (2, 1)), ((1, 0), (1, 0))] \<rparr> \<and>
   eq_distinct eq_mod3 [(0, 1), (1, 1), (2, 1), (1, 0)] \<and>
   eq_mod3 (2, 2) (1, 1) \<and> eq_mod3 (4, 0) (1, 0)"
proof -
  have h1: "\<forall>x. eq_mod3 x x" by (simp add: eq_mod3_def)
  have h2: "\<forall>x y. eq_mod3 x y \<longrightarrow> eq_mod3 y x" by (simp add: eq_mod3_def)
  have h3: "\<forall>x y z. eq_mod3 x y \<and> eq_mod3 y z \<longrightarrow> eq_mod3 x z" by (simp add: eq_mod3_def)
  have h5: "\<forall>p \<in> set preper_mod3. \<exists>r. sq_map_mod3 True p = Inr r \<and>
              (\<exists>q \<in> set preper_mod3. eq_mod3 (normalize_mod3 r) q)"
    by (simp add: preper_mod3_def sq_map_mod3_def eq_mod3_def normalize_mod3_def)
  have run: "preperiodic_points_to_cyclegraph sq_map_mod3 normalize_mod3 eq_mod3 preper_mod3
     = Inr \<lparr> vertices = [(0, 1), (1, 1), (2, 1), (1, 0)],
             arcs = [((0, 1), (1, 1)), ((1, 1), (2, 1)), ((2, 1), (2, 1)), ((1, 0), (1, 0))] \<rparr>"
    by (simp add: preperiodic_points_to_cyclegraph_def preper_mod3_def sq_map_mod3_def eq_mod3_def
        normalize_mod3_def dict_zip_def DiGraph_def Let_def)
  have "eq_distinct eq_mod3 [(0, 1), (1, 1), (2, 1), (1, 0)]"
    using preperiodic_graph_one_vertex_per_class[where eq = eq_mod3 and ev = sq_map_mod3
        and nrm = normalize_mod3 and preper = preper_mod3, OF h1 h2 h3 sq_map_mod3_respects h5] run
    by auto
  moreover have "eq_mod3 (2, 2) (1, 1) \<and> eq_mod3 (4, 0) (1, 0)"
    by (simp add: eq_mod3_def normalize_mod3_def)
  ultimately show ?thesis using run by simp
qed

end
